theory Spec2Isabelle
  imports Main "HOL-Library.AList"
begin

section \<open>Python values: exceptions, call outcomes, envelopes\<close>

text \<open>
  The development embeds \<^verbatim>\<open>videoflow/environments/queues.py\<close>. A Python call either
  returns a value, raises an exception, or is suspended inside a blocking library call
  (\<^verbatim>\<open>Queue.put(block = True)\<close>, \<^verbatim>\<open>Queue.get()\<close>, \<^verbatim>\<open>Process.join()\<close>) for as long as
  the other processes are known to behave; the three cases are the three constructors
  of \<open>outcome\<close>.
\<close>

datatype exn =
  Full | KeyError | TypeError | AttributeError | UnboundLocalError
  | RuntimeError | AssertionError | KeyboardInterrupt | ValueError

datatype 'a outcome = Returned 'a | Raised exn | Blocked

text \<open>
  An envelope is a Python \<^verbatim>\<open>dict\<close> from node identity to value. It is an association
  list with \<open>AList.update\<close> for \<^verbatim>\<open>d[k] = v\<close> (an existing key keeps its place, a new
  key goes last, as in Python) and \<open>map_of\<close> for \<^verbatim>\<open>d[k]\<close>. What travels on a queue is
  an envelope or Python's \<^verbatim>\<open>None\<close>.
\<close>

type_synonym ('k, 'v) envelope = "('k \<times> 'v) list"

type_synonym ('k, 'v) msg = "('k, 'v) envelope option"

section \<open>The library objects: \<^verbatim>\<open>multiprocessing.Queue\<close>\<close>

text \<open>
  A queue is a FIFO with a capacity; \<^verbatim>\<open>maxsize <= 0\<close> means no bound. While a caller is
  suspended in \<^verbatim>\<open>put\<close> the readers of the queue may take items, and a
  \<^verbatim>\<open>KeyboardInterrupt\<close> may reach the caller, which the suspended \<^verbatim>\<open>put\<close> then raises
  (\<open>reader_tick\<close>); while it is suspended in \<^verbatim>\<open>get\<close> the writer may add items
  (\<open>writer_tick\<close>). A tick list is what happens around the suspended caller, one step
  at a time, for as long as it is known; a caller still suspended when the list ends is
  \<open>Blocked\<close>.
\<close>

record 'a queue =
  maxsize :: nat
  items :: "'a list"

definition Queue :: "nat \<Rightarrow> 'a queue" where
  "Queue n = \<lparr>maxsize = n, items = []\<rparr>"

definition Queue_full :: "'a queue \<Rightarrow> bool" where
  "Queue_full q = (0 < maxsize q \<and> maxsize q \<le> length (items q))"

definition Queue_wf :: "'a queue \<Rightarrow> bool" where
  "Queue_wf q = (maxsize q = 0 \<or> length (items q) \<le> maxsize q)"

definition enqueue :: "'a queue \<Rightarrow> 'a \<Rightarrow> 'a queue" where
  "enqueue q x = q\<lparr>items := items q @ [x]\<rparr>"

datatype reader_tick = ReaderGets | ReaderIdle | CallerInterrupted

datatype 'a writer_tick = WriterPuts 'a | WriterIdle

fun reader_step :: "reader_tick \<Rightarrow> 'a queue \<Rightarrow> 'a queue" where
  "reader_step ReaderGets q = (case items q of [] \<Rightarrow> q | x # xs \<Rightarrow> q\<lparr>items := xs\<rparr>)"
| "reader_step ReaderIdle q = q"
| "reader_step CallerInterrupted q = q"

fun writer_step :: "'a writer_tick \<Rightarrow> 'a queue \<Rightarrow> 'a queue" where
  "writer_step (WriterPuts x) q = (if Queue_full q then q else enqueue q x)"
| "writer_step WriterIdle q = q"

text \<open>\<^verbatim>\<open>q.put(x, block = block)\<close>: the outcome and the queue afterwards.\<close>

fun Queue_put :: "'a queue \<Rightarrow> 'a \<Rightarrow> bool \<Rightarrow> reader_tick list \<Rightarrow> unit outcome \<times> 'a queue" where
  "Queue_put q x block [] =
     (if Queue_full q then (if block then (Blocked, q) else (Raised Full, q))
      else (Returned (), enqueue q x))"
| "Queue_put q x block (t # ts) =
     (if Queue_full q then
        (if block then
           (if t = CallerInterrupted then (Raised KeyboardInterrupt, q)
            else Queue_put (reader_step t q) x block ts)
         else (Raised Full, q))
      else (Returned (), enqueue q x))"

text \<open>\<^verbatim>\<open>q.get()\<close>: the outcome and the queue afterwards.\<close>

fun Queue_get :: "'a queue \<Rightarrow> 'a writer_tick list \<Rightarrow> 'a outcome \<times> 'a queue" where
  "Queue_get q [] =
     (case items q of [] \<Rightarrow> (Blocked, q) | x # xs \<Rightarrow> (Returned x, q\<lparr>items := xs\<rparr>))"
| "Queue_get q (t # ts) =
     (case items q of [] \<Rightarrow> Queue_get (writer_step t q) ts
      | x # xs \<Rightarrow> (Returned x, q\<lparr>items := xs\<rparr>))"

section \<open>The messengers\<close>

text \<open>
  The fields of \<^verbatim>\<open>BatchprocessingQueueMessenger\<close> and \<^verbatim>\<open>RealtimeQueueMessenger\<close> (the two
  classes have the same \<^verbatim>\<open>__init__\<close>). The queues and the event are shared objects,
  held by reference (an index into the store of section "The shared store"); the
  methods below take the referenced queue and return it updated.
\<close>

record ('k, 'v) messenger =
  computation_node_id :: 'k
  parent_nodes_ids :: "'k list"
  task_queue :: "nat option"
  parent_task_queue :: "nat option"
  termination_event :: nat
  last_message_received :: "('k, 'v) msg"

type_synonym ('k, 'v) send_result =
  "unit outcome \<times> ('k, 'v) messenger \<times> ('k, 'v) msg queue"

text \<open>\<^verbatim>\<open>self._task_queue.put(msg, block = block)\<close> as a statement of a method of \<open>self\<close>.\<close>

definition task_queue_put ::
  "('k, 'v) messenger \<Rightarrow> ('k, 'v) msg queue \<Rightarrow> ('k, 'v) msg \<Rightarrow> bool \<Rightarrow> reader_tick list
     \<Rightarrow> ('k, 'v) send_result" where
  "task_queue_put self q msg block ticks =
     (case Queue_put q msg block ticks of (r, q') \<Rightarrow> (r, self, q'))"

text \<open>\<^verbatim>\<open>try: ... except: pass\<close> around a statement.\<close>

fun try_except_pass :: "('k, 'v) send_result \<Rightarrow> ('k, 'v) send_result" where
  "try_except_pass (Raised e, self, q) = (Returned (), self, q)"
| "try_except_pass r = r"

text \<open>\<^verbatim>\<open>[input_message_dict[a] for a in self._parent_nodes_ids]\<close>\<close>

fun index_all :: "('k, 'v) msg \<Rightarrow> 'k list \<Rightarrow> 'v list outcome" where
  "index_all d [] = Returned []"
| "index_all None (a # as) = Raised TypeError"
| "index_all (Some d) (a # as) =
     (case map_of d a of
        None \<Rightarrow> Raised KeyError
      | Some v \<Rightarrow>
          (case index_all (Some d) as of
             Returned vs \<Rightarrow> Returned (v # vs)
           | Raised e \<Rightarrow> Raised e
           | Blocked \<Rightarrow> Blocked))"

subsection \<open>\<^verbatim>\<open>BatchprocessingQueueMessenger\<close>\<close>

definition batch_publish_message ::
  "('k, 'v) messenger \<Rightarrow> 'v \<Rightarrow> ('k, 'v) msg queue \<Rightarrow> reader_tick list \<Rightarrow> ('k, 'v) send_result" where
  "batch_publish_message self message q ticks =
     (case last_message_received self of
        None \<Rightarrow>
          (let msg = [(computation_node_id self, message)]
           in task_queue_put self q (Some msg) True ticks)
      | Some d \<Rightarrow>
          (let self' = self\<lparr>last_message_received :=
                 Some (AList.update (computation_node_id self) message d)\<rparr>
           in task_queue_put self' q (last_message_received self') True ticks))"

definition batch_publish_termination_message ::
  "('k, 'v) messenger \<Rightarrow> 'v \<Rightarrow> ('k, 'v) msg queue \<Rightarrow> reader_tick list \<Rightarrow> ('k, 'v) send_result" where
  "batch_publish_termination_message self message q ticks =
     batch_publish_message self message q ticks"

definition batch_passthrough_message ::
  "('k, 'v) messenger \<Rightarrow> ('k, 'v) msg queue \<Rightarrow> reader_tick list \<Rightarrow> ('k, 'v) send_result" where
  "batch_passthrough_message self q ticks =
     task_queue_put self q (last_message_received self) True ticks"

definition batch_passthrough_termination_message ::
  "('k, 'v) messenger \<Rightarrow> ('k, 'v) msg queue \<Rightarrow> reader_tick list \<Rightarrow> ('k, 'v) send_result" where
  "batch_passthrough_termination_message self q ticks = batch_passthrough_message self q ticks"

text \<open>
  \<^verbatim>\<open>receive_message\<close>: \<open>pq\<close> is the object \<^verbatim>\<open>self._parent_task_queue\<close> refers to, \<open>None\<close>
  when the field is \<^verbatim>\<open>None\<close> (a task with no parent queue).
\<close>

definition batch_receive_message ::
  "('k, 'v) messenger \<Rightarrow> ('k, 'v) msg queue option \<Rightarrow> ('k, 'v) msg writer_tick list
     \<Rightarrow> 'v list outcome \<times> ('k, 'v) messenger \<times> ('k, 'v) msg queue option" where
  "batch_receive_message self pq ticks =
     (case pq of
        None \<Rightarrow> (Raised AttributeError, self, None)
      | Some q \<Rightarrow>
          (case Queue_get q ticks of
             (Returned input_message_dict, q') \<Rightarrow>
               (let self' = self\<lparr>last_message_received := input_message_dict\<rparr>
                in (index_all input_message_dict (parent_nodes_ids self'), self', Some q'))
           | (Raised e, q') \<Rightarrow> (Raised e, self, Some q')
           | (Blocked, q') \<Rightarrow> (Blocked, self, Some q')))"

subsection \<open>\<^verbatim>\<open>RealtimeQueueMessenger\<close>\<close>

definition realtime_publish_message ::
  "('k, 'v) messenger \<Rightarrow> 'v \<Rightarrow> ('k, 'v) msg queue \<Rightarrow> reader_tick list \<Rightarrow> ('k, 'v) send_result" where
  "realtime_publish_message self message q ticks =
     (case last_message_received self of
        None \<Rightarrow>
          try_except_pass
            (let msg = [(computation_node_id self, message)]
             in task_queue_put self q (Some msg) False ticks)
      | Some d \<Rightarrow>
          (let self' = self\<lparr>last_message_received :=
                 Some (AList.update (computation_node_id self) message d)\<rparr>
           in try_except_pass
                (task_queue_put self' q (last_message_received self') False ticks)))"

definition realtime_publish_termination_message ::
  "('k, 'v) messenger \<Rightarrow> 'v \<Rightarrow> ('k, 'v) msg queue \<Rightarrow> reader_tick list \<Rightarrow> ('k, 'v) send_result" where
  "realtime_publish_termination_message self message q ticks =
     (case last_message_received self of
        None \<Rightarrow>
          try_except_pass
            (let msg = [(computation_node_id self, message)]
             in task_queue_put self q (Some msg) True ticks)
      | Some d \<Rightarrow>
          (let self' = self\<lparr>last_message_received :=
                 Some (AList.update (computation_node_id self) message d)\<rparr>
           in try_except_pass
                (task_queue_put self' q (last_message_received self') True ticks)))"

definition realtime_passthrough_message ::
  "('k, 'v) messenger \<Rightarrow> ('k, 'v) msg queue \<Rightarrow> reader_tick list \<Rightarrow> ('k, 'v) send_result" where
  "realtime_passthrough_message self q ticks =
     try_except_pass (task_queue_put self q (last_message_received self) False ticks)"

definition realtime_passthrough_termination_message ::
  "('k, 'v) messenger \<Rightarrow> ('k, 'v) msg queue \<Rightarrow> reader_tick list \<Rightarrow> ('k, 'v) send_result" where
  "realtime_passthrough_termination_message self q ticks =
     try_except_pass (task_queue_put self q (last_message_received self) True ticks)"

definition realtime_receive_message ::
  "('k, 'v) messenger \<Rightarrow> ('k, 'v) msg queue option \<Rightarrow> ('k, 'v) msg writer_tick list
     \<Rightarrow> 'v list outcome \<times> ('k, 'v) messenger \<times> ('k, 'v) msg queue option" where
  "realtime_receive_message self pq ticks =
     (case pq of
        None \<Rightarrow> (Raised AttributeError, self, None)
      | Some q \<Rightarrow>
          (case Queue_get q ticks of
             (Returned input_message_dict, q') \<Rightarrow>
               (let self' = self\<lparr>last_message_received := input_message_dict\<rparr>
                in (index_all input_message_dict (parent_nodes_ids self'), self', Some q'))
           | (Raised e, q') \<Rightarrow> (Raised e, self, Some q')
           | (Blocked, q') \<Rightarrow> (Blocked, self, Some q')))"

text \<open>
  \<^verbatim>\<open>check_for_termination\<close> (the same body in both classes): \<open>events\<close> is the store of
  \<^verbatim>\<open>Event\<close> objects, \<^verbatim>\<open>is_set()\<close> reads the flag of the referenced one.
\<close>

definition check_for_termination :: "('k, 'v) messenger \<Rightarrow> bool list \<Rightarrow> bool" where
  "check_for_termination self events = events ! termination_event self"

section \<open>Nodes, tasks and processes\<close>

text \<open>
  The node and task classes live in \<^verbatim>\<open>core/node.py\<close> and \<^verbatim>\<open>core/task.py\<close>; this file uses
  a node's \<^verbatim>\<open>id\<close> and \<^verbatim>\<open>parents\<close>, its class, and a processor task's \<^verbatim>\<open>device_type\<close> and
  \<^verbatim>\<open>change_device\<close>. A node is a record of exactly these; \<open>parents\<close> holds the
  identities \<^verbatim>\<open>[a.id for a in parents]\<close>, or \<open>None\<close> when \<^verbatim>\<open>parents is None\<close>.
\<close>

datatype node_kind = ProducerNode | ProcessorNode | ConsumerNode | OtherNode

datatype device = GPU | CPU

record 'k node =
  node_ident :: 'k
  parents :: "'k list option"
  kind :: node_kind
  device_type :: device
  refuses_downgrade :: bool

text \<open>The shared \<^verbatim>\<open>__init__\<close> of the two messenger classes.\<close>

definition Messenger_init ::
  "'k node \<Rightarrow> nat option \<Rightarrow> nat option \<Rightarrow> nat \<Rightarrow> ('k, 'v) messenger" where
  "Messenger_init computation_node tq ptq ev =
     \<lparr>computation_node_id = node_ident computation_node,
      parent_nodes_ids = (case parents computation_node of None \<Rightarrow> [] | Some ps \<Rightarrow> ps),
      task_queue = tq,
      parent_task_queue = ptq,
      termination_event = ev,
      last_message_received = None\<rparr>"

datatype ('k, 'v) messenger_obj =
  BatchprocessingQueueMessenger "('k, 'v) messenger"
  | RealtimeQueueMessenger "('k, 'v) messenger"

text \<open>
  Modelled from the spec: the task classes \<^verbatim>\<open>ProducerTask\<close>, \<^verbatim>\<open>ProcessorTask\<close> and
  \<^verbatim>\<open>ConsumerTask\<close> of \<^verbatim>\<open>core/task.py\<close>, which is not among the sources. A task binds a
  node to a messenger (held by reference) and to the identifiers its constructor is
  given; a transform task has an accelerator affinity (that of its node) with a
  downgrade to CPU execution that the node may refuse.
\<close>

datatype 'k task =
  ProducerTask "'k node" nat 'k
  | ProcessorTask "'k node" nat 'k "'k option"
  | ConsumerTask "'k node" nat 'k "'k option" bool

fun computation_node :: "'k task \<Rightarrow> 'k node" where
  "computation_node (ProducerTask n m i) = n"
| "computation_node (ProcessorTask n m i p) = n"
| "computation_node (ConsumerTask n m i p c) = n"

fun task_messenger :: "'k task \<Rightarrow> nat" where
  "task_messenger (ProducerTask n m i) = m"
| "task_messenger (ProcessorTask n m i p) = m"
| "task_messenger (ConsumerTask n m i p c) = m"

fun isinstance_ProcessorTask :: "'k task option \<Rightarrow> bool" where
  "isinstance_ProcessorTask (Some (ProcessorTask n m i p)) = True"
| "isinstance_ProcessorTask t = False"

definition task_device_type :: "'k task \<Rightarrow> device" where
  "task_device_type t = device_type (computation_node t)"

text \<open>
  Modelled from the spec: \<^verbatim>\<open>task.change_device(CPU)\<close>, raising when the node refuses the
  downgrade.
\<close>

fun change_device :: "'k task \<Rightarrow> device \<Rightarrow> 'k task outcome" where
  "change_device (ProcessorTask n m i p) d =
     (if refuses_downgrade n then Raised ValueError
      else Returned (ProcessorTask (n\<lparr>device_type := d\<rparr>) m i p))"
| "change_device t d = Raised AttributeError"

text \<open>
  A \<^verbatim>\<open>multiprocessing.Process\<close>: its target's arguments (\<^verbatim>\<open>task_executor_fn\<close> gets the
  task, \<^verbatim>\<open>task_executor_gpu_fn\<close> the task and the device it makes the only visible
  one), and whether \<^verbatim>\<open>start()\<close> has been called.
\<close>

record 'k process =
  target_task :: "'k task option"
  gpu_id :: "int option"
  started :: bool

definition create_process_task :: "'k task option \<Rightarrow> 'k process" where
  "create_process_task task = \<lparr>target_task = task, gpu_id = None, started = False\<rparr>"

definition create_process_task_gpu :: "'k task option \<Rightarrow> int \<Rightarrow> 'k process" where
  "create_process_task_gpu task g = \<lparr>target_task = task, gpu_id = Some g, started = False\<rparr>"

section \<open>The shared store and \<^verbatim>\<open>QueueExecutionEnvironment\<close>\<close>

text \<open>
  Queues, events and messengers are objects shared by reference: the store keeps them
  in lists, a reference is an index, allocation appends.
\<close>

record ('k, 'v) world =
  queues :: "('k, 'v) msg queue list"
  events :: "bool list"
  messengers :: "('k, 'v) messenger_obj list"

datatype flow = BATCH | REALTIME | OtherFlow

record 'k environment =
  flow_type :: flow
  procs :: "'k process list"
  task_output_queues :: "('k \<times> nat) list"
  env_termination_event :: "nat option"
  nb_available_gpus :: int
  next_gpu :: int

text \<open>\<^verbatim>\<open>__init__\<close>; \<open>gpus\<close> is what \<^verbatim>\<open>get_number_of_gpus()\<close> returns.\<close>

definition QueueExecutionEnvironment_init :: "flow \<Rightarrow> int \<Rightarrow> 'k environment" where
  "QueueExecutionEnvironment_init ft gpus =
     \<lparr>flow_type = ft, procs = [], task_output_queues = [], env_termination_event = None,
      nb_available_gpus = gpus, next_gpu = - 1\<rparr>"

text \<open>
  One entry of \<^verbatim>\<open>tasks_data\<close>: \<^verbatim>\<open>(node, node_id, parent_node_id, has_children)\<close>. The
  effects of \<^verbatim>\<open>_al_create_and_start_processes\<close> are logged in the order they happen.
\<close>

type_synonym 'k task_data = "'k node \<times> 'k \<times> 'k option \<times> bool"

datatype 'k event =
  QueueCreated 'k | EventCreated | MessengerCreated 'k | TaskCreated 'k
  | ProcessCreated nat | ProcessStarted nat

text \<open>Step 0: \<^verbatim>\<open>for data in tasks_data: self._task_output_queues[data[1]] = Queue(10)\<close>\<close>

fun create_output_queues ::
  "'k task_data list \<Rightarrow> ('k \<times> nat) list \<Rightarrow> 'a queue list
     \<Rightarrow> ('k \<times> nat) list \<times> 'a queue list \<times> 'k event list" where
  "create_output_queues [] d qs = (d, qs, [])"
| "create_output_queues ((node, task_id, parent_node_id, has_children) # rest) d qs =
     (case create_output_queues rest (AList.update task_id (length qs) d) (qs @ [Queue 10]) of
        (d', qs', tr) \<Rightarrow> (d', qs', QueueCreated task_id # tr))"

text \<open>
  Step 1.1: the messenger of one entry. \<open>mvar\<close> is the local variable \<^verbatim>\<open>messenger\<close>,
  which keeps its value (unbound at first) when the flow type is neither constant.
\<close>

definition create_messenger ::
  "'k environment \<Rightarrow> nat \<Rightarrow> 'k task_data \<Rightarrow> nat option \<Rightarrow> ('k, 'v) messenger_obj list
     \<Rightarrow> nat option \<times> ('k, 'v) messenger_obj list \<times> 'k event list" where
  "create_messenger env ev data mvar ms =
     (case data of (node, node_id, parent_node_id, has_children) \<Rightarrow>
        (let tq = map_of (task_output_queues env) node_id;
             ptq = (case parent_node_id of None \<Rightarrow> None
                    | Some p \<Rightarrow> map_of (task_output_queues env) p)
         in if flow_type env = BATCH then
              (Some (length ms),
               ms @ [BatchprocessingQueueMessenger (Messenger_init node tq ptq ev)],
               [MessengerCreated node_id])
            else if flow_type env = REALTIME then
              (Some (length ms),
               ms @ [RealtimeQueueMessenger (Messenger_init node tq ptq ev)],
               [MessengerCreated node_id])
            else (mvar, ms, [])))"

text \<open>The \<^verbatim>\<open>isinstance\<close> chain that builds the task (\<open>None\<close> is \<^verbatim>\<open>task = None\<close>).\<close>

definition create_task :: "'k task_data \<Rightarrow> nat option \<Rightarrow> 'k task option outcome" where
  "create_task data mvar =
     (case data of (node, node_id, parent_node_id, has_children) \<Rightarrow>
        (if kind node = ProducerNode then
           (case mvar of None \<Rightarrow> Raised UnboundLocalError
            | Some m \<Rightarrow> Returned (Some (ProducerTask node m node_id)))
         else if kind node = ProcessorNode then
           (case mvar of None \<Rightarrow> Raised UnboundLocalError
            | Some m \<Rightarrow> Returned (Some (ProcessorTask node m node_id parent_node_id)))
         else if kind node = ConsumerNode then
           (case mvar of None \<Rightarrow> Raised UnboundLocalError
            | Some m \<Rightarrow> Returned (Some (ConsumerTask node m node_id parent_node_id has_children)))
         else Returned None))"

text \<open>Step 1: the loop that fills \<^verbatim>\<open>tasks\<close>.\<close>

fun initialize_tasks ::
  "'k environment \<Rightarrow> nat \<Rightarrow> 'k task_data list \<Rightarrow> nat option \<Rightarrow> ('k, 'v) messenger_obj list
     \<Rightarrow> 'k task option list outcome \<times> ('k, 'v) messenger_obj list \<times> 'k event list" where
  "initialize_tasks env ev [] mvar ms = (Returned [], ms, [])"
| "initialize_tasks env ev (data # rest) mvar ms =
     (case create_messenger env ev data mvar ms of
        (mvar', ms', tr1) \<Rightarrow>
          (case create_task data mvar' of
             Returned task \<Rightarrow>
               (case initialize_tasks env ev rest mvar' ms' of
                  (Returned tasks, ms'', tr) \<Rightarrow>
                    (Returned (task # tasks), ms'',
                     tr1 @ (case task of None \<Rightarrow> [] | Some t \<Rightarrow> [TaskCreated (fst (snd data))]) @ tr)
                | (r, ms'', tr) \<Rightarrow>
                    (r, ms'',
                     tr1 @ (case task of None \<Rightarrow> [] | Some t \<Rightarrow> [TaskCreated (fst (snd data))]) @ tr))
           | Raised e \<Rightarrow> (Raised e, ms', tr1)
           | Blocked \<Rightarrow> (Blocked, ms', tr1)))"

text \<open>Step 2, the body of the loop: the process of one task.\<close>

definition create_process ::
  "'k task option \<Rightarrow> 'k environment \<Rightarrow> 'k process outcome \<times> 'k environment" where
  "create_process task env =
     (if isinstance_ProcessorTask task then
        (if task_device_type (the task) = GPU then
           (let env1 = env\<lparr>next_gpu := next_gpu env + 1\<rparr>
            in if next_gpu env1 < nb_available_gpus env1 then
                 (Returned (create_process_task_gpu task (next_gpu env1)), env1)
               else
                 (case change_device (the task) CPU of
                    Returned task' \<Rightarrow> (Returned (create_process_task (Some task')), env1)
                  | Raised e \<Rightarrow> (Raised RuntimeError, env1)
                  | Blocked \<Rightarrow> (Blocked, env1)))
         else (Returned (create_process_task task), env))
      else (Returned (create_process_task task), env))"

text \<open>Step 2: \<^verbatim>\<open>for task in tasks: ...; self._procs.append(proc)\<close>\<close>

fun create_processes ::
  "'k task option list \<Rightarrow> 'k environment \<Rightarrow> unit outcome \<times> 'k environment \<times> 'k event list" where
  "create_processes [] env = (Returned (), env, [])"
| "create_processes (task # tasks) env =
     (case create_process task env of
        (Returned proc, env1) \<Rightarrow>
          (case create_processes tasks (env1\<lparr>procs := procs env1 @ [proc]\<rparr>) of
             (r, env', tr) \<Rightarrow> (r, env', ProcessCreated (length (procs env1)) # tr))
      | (Raised e, env1) \<Rightarrow> (Raised e, env1, [])
      | (Blocked, env1) \<Rightarrow> (Blocked, env1, []))"

text \<open>
  Step 3: \<^verbatim>\<open>for proc in self._procs: proc.start()\<close>; \<^verbatim>\<open>start()\<close> of a started process
  fails its assertion. \<open>i\<close> is the index of the first process of the list in
  \<^verbatim>\<open>self._procs\<close>.
\<close>

fun start_processes ::
  "'k process list \<Rightarrow> nat \<Rightarrow> unit outcome \<times> 'k process list \<times> 'k event list" where
  "start_processes [] i = (Returned (), [], [])"
| "start_processes (proc # ps) i =
     (if started proc then (Raised AssertionError, proc # ps, [])
      else (case start_processes ps (Suc i) of
              (r, ps', tr) \<Rightarrow> (r, proc\<lparr>started := True\<rparr> # ps', ProcessStarted i # tr)))"

definition al_create_and_start_processes ::
  "'k environment \<Rightarrow> ('k, 'v) world \<Rightarrow> 'k task_data list
     \<Rightarrow> unit outcome \<times> 'k environment \<times> ('k, 'v) world \<times> 'k event list" where
  "al_create_and_start_processes env w tasks_data =
     (case create_output_queues tasks_data (task_output_queues env) (queues w) of
        (d, qs, tr0) \<Rightarrow>
          (let ev = length (events w);
               w1 = w\<lparr>queues := qs, events := events w @ [False]\<rparr>;
               env1 = env\<lparr>task_output_queues := d, env_termination_event := Some ev\<rparr>
           in case initialize_tasks env1 ev tasks_data None (messengers w1) of
                (Returned tasks, ms, tr1) \<Rightarrow>
                  (case create_processes tasks env1 of
                     (Returned u, env2, tr2) \<Rightarrow>
                       (case start_processes (procs env2) 0 of
                          (r, ps, tr3) \<Rightarrow>
                            (r, env2\<lparr>procs := ps\<rparr>, w1\<lparr>messengers := ms\<rparr>,
                             tr0 @ [EventCreated] @ tr1 @ tr2 @ tr3))
                   | (Raised e, env2, tr2) \<Rightarrow>
                       (Raised e, env2, w1\<lparr>messengers := ms\<rparr>, tr0 @ [EventCreated] @ tr1 @ tr2)
                   | (Blocked, env2, tr2) \<Rightarrow>
                       (Blocked, env2, w1\<lparr>messengers := ms\<rparr>, tr0 @ [EventCreated] @ tr1 @ tr2))
              | (Raised e, ms, tr1) \<Rightarrow>
                  (Raised e, env1, w1\<lparr>messengers := ms\<rparr>, tr0 @ [EventCreated] @ tr1)
              | (Blocked, ms, tr1) \<Rightarrow>
                  (Blocked, env1, w1\<lparr>messengers := ms\<rparr>, tr0 @ [EventCreated] @ tr1)))"

text \<open>\<^verbatim>\<open>self._termination_event.set()\<close>\<close>

definition signal_flow_termination ::
  "'k environment \<Rightarrow> bool list \<Rightarrow> unit outcome \<times> bool list" where
  "signal_flow_termination env evs =
     (case env_termination_event env of
        None \<Rightarrow> (Raised AttributeError, evs)
      | Some e \<Rightarrow> (Returned (), evs[e := True]))"

text \<open>
  \<^verbatim>\<open>proc.join()\<close>. What a pending join meets is given by the caller's surroundings: the
  unit exits, or a \<^verbatim>\<open>KeyboardInterrupt\<close> reaches the waiting caller. Each join takes the
  next entry; with none left the caller is still waiting. Joining a process that was
  never started fails its assertion.
\<close>

datatype join_result = Exits | Interrupted

definition Process_join ::
  "'k process \<Rightarrow> join_result list \<Rightarrow> unit outcome \<times> join_result list" where
  "Process_join proc js =
     (if \<not> started proc then (Raised AssertionError, js)
      else (case js of
              [] \<Rightarrow> (Blocked, [])
            | Exits # js' \<Rightarrow> (Returned (), js')
            | Interrupted # js' \<Rightarrow> (Raised KeyboardInterrupt, js')))"

text \<open>
  The loop of \<^verbatim>\<open>join_task_processes\<close>; the second component lists, in order, the index
  of the process of every \<^verbatim>\<open>join()\<close> that was called.
\<close>

fun join_loop :: "'k process list \<Rightarrow> nat \<Rightarrow> join_result list \<Rightarrow> unit outcome \<times> nat list" where
  "join_loop [] i js = (Returned (), [])"
| "join_loop (proc # ps) i js =
     (case Process_join proc js of
        (Returned u, js1) \<Rightarrow>
          (case join_loop ps (Suc i) js1 of (r, calls) \<Rightarrow> (r, i # calls))
      | (Raised e, js1) \<Rightarrow>
          (if e = KeyboardInterrupt then
             (case Process_join proc js1 of
                (Returned u, js2) \<Rightarrow>
                  (case join_loop ps (Suc i) js2 of (r, calls) \<Rightarrow> (r, i # i # calls))
              | (Raised e', js2) \<Rightarrow> (Raised e', [i, i])
              | (Blocked, js2) \<Rightarrow> (Blocked, [i, i]))
           else (Raised e, [i]))
      | (Blocked, js1) \<Rightarrow> (Blocked, [i]))"

definition join_task_processes ::
  "'k environment \<Rightarrow> join_result list \<Rightarrow> unit outcome \<times> nat list" where
  "join_task_processes env js = join_loop (procs env) 0 js"

section \<open>The run as a whole\<close>

text \<open>
  A method call on a messenger object is dispatched on its class. The units of a run and
  the driver act on the shared store one call at a time; \<open>step\<close> is the effect of one
  call on the environment object and the store, \<open>run\<close> that of any sequence of calls.
\<close>

datatype 'v send_call = Publish 'v | PublishTermination 'v | Passthrough | PassthroughTermination

fun messenger_fields :: "('k, 'v) messenger_obj \<Rightarrow> ('k, 'v) messenger" where
  "messenger_fields (BatchprocessingQueueMessenger self) = self"
| "messenger_fields (RealtimeQueueMessenger self) = self"

fun with_fields :: "('k, 'v) messenger_obj \<Rightarrow> ('k, 'v) messenger \<Rightarrow> ('k, 'v) messenger_obj" where
  "with_fields (BatchprocessingQueueMessenger old) self = BatchprocessingQueueMessenger self"
| "with_fields (RealtimeQueueMessenger old) self = RealtimeQueueMessenger self"

fun call_send ::
  "('k, 'v) messenger_obj \<Rightarrow> 'v send_call \<Rightarrow> ('k, 'v) msg queue \<Rightarrow> reader_tick list
     \<Rightarrow> ('k, 'v) send_result" where
  "call_send (BatchprocessingQueueMessenger self) (Publish v) q t = batch_publish_message self v q t"
| "call_send (BatchprocessingQueueMessenger self) (PublishTermination v) q t =
     batch_publish_termination_message self v q t"
| "call_send (BatchprocessingQueueMessenger self) Passthrough q t = batch_passthrough_message self q t"
| "call_send (BatchprocessingQueueMessenger self) PassthroughTermination q t =
     batch_passthrough_termination_message self q t"
| "call_send (RealtimeQueueMessenger self) (Publish v) q t = realtime_publish_message self v q t"
| "call_send (RealtimeQueueMessenger self) (PublishTermination v) q t =
     realtime_publish_termination_message self v q t"
| "call_send (RealtimeQueueMessenger self) Passthrough q t = realtime_passthrough_message self q t"
| "call_send (RealtimeQueueMessenger self) PassthroughTermination q t =
     realtime_passthrough_termination_message self q t"

fun call_receive ::
  "('k, 'v) messenger_obj \<Rightarrow> ('k, 'v) msg queue option \<Rightarrow> ('k, 'v) msg writer_tick list
     \<Rightarrow> 'v list outcome \<times> ('k, 'v) messenger \<times> ('k, 'v) msg queue option" where
  "call_receive (BatchprocessingQueueMessenger self) pq t = batch_receive_message self pq t"
| "call_receive (RealtimeQueueMessenger self) pq t = realtime_receive_message self pq t"

fun call_check_for_termination :: "('k, 'v) messenger_obj \<Rightarrow> bool list \<Rightarrow> bool" where
  "call_check_for_termination (BatchprocessingQueueMessenger self) evs = check_for_termination self evs"
| "call_check_for_termination (RealtimeQueueMessenger self) evs = check_for_termination self evs"

text \<open>
  A send of messenger \<open>i\<close> of the store, on the queue its \<^verbatim>\<open>_task_queue\<close> refers to. With
  no task queue the \<^verbatim>\<open>put\<close> has no object to act on and what stays of the call is what it
  did to the messenger before, which does not depend on the queue.
\<close>

definition world_send ::
  "('k, 'v) world \<Rightarrow> nat \<Rightarrow> 'v send_call \<Rightarrow> reader_tick list \<Rightarrow> ('k, 'v) world" where
  "world_send w i c ticks =
     (if length (messengers w) \<le> i then w
      else (let obj = messengers w ! i
            in case task_queue (messenger_fields obj) of
                 None \<Rightarrow>
                   (case call_send obj c (Queue 0) ticks of
                      (r, self', q') \<Rightarrow>
                        w\<lparr>messengers := (messengers w)[i := with_fields obj self']\<rparr>)
               | Some a \<Rightarrow>
                   (case call_send obj c (queues w ! a) ticks of
                      (r, self', q') \<Rightarrow>
                        w\<lparr>queues := (queues w)[a := q'],
                          messengers := (messengers w)[i := with_fields obj self']\<rparr>)))"

definition world_receive ::
  "('k, 'v) world \<Rightarrow> nat \<Rightarrow> ('k, 'v) msg writer_tick list \<Rightarrow> ('k, 'v) world" where
  "world_receive w i ticks =
     (if length (messengers w) \<le> i then w
      else (let obj = messengers w ! i
            in case parent_task_queue (messenger_fields obj) of
                 None \<Rightarrow>
                   (case call_receive obj None ticks of
                      (r, self', pq') \<Rightarrow>
                        w\<lparr>messengers := (messengers w)[i := with_fields obj self']\<rparr>)
               | Some a \<Rightarrow>
                   (case call_receive obj (Some (queues w ! a)) ticks of
                      (r, self', pq') \<Rightarrow>
                        w\<lparr>queues := (case pq' of None \<Rightarrow> queues w | Some q' \<Rightarrow> (queues w)[a := q']),
                          messengers := (messengers w)[i := with_fields obj self']\<rparr>)))"

record ('k, 'v) system =
  sys_env :: "'k environment"
  sys_world :: "('k, 'v) world"

datatype ('k, 'v) action =
  Send nat "'v send_call" "reader_tick list"
  | Receive nat "('k, 'v) msg writer_tick list"
  | CheckForTermination nat
  | AlCreateAndStartProcesses "'k task_data list"
  | SignalFlowTermination
  | JoinTaskProcesses "join_result list"

fun step :: "('k, 'v) system \<Rightarrow> ('k, 'v) action \<Rightarrow> ('k, 'v) system" where
  "step s (Send i c t) = s\<lparr>sys_world := world_send (sys_world s) i c t\<rparr>"
| "step s (Receive i t) = s\<lparr>sys_world := world_receive (sys_world s) i t\<rparr>"
| "step s (CheckForTermination i) = s"
| "step s (AlCreateAndStartProcesses tasks_data) =
     (case al_create_and_start_processes (sys_env s) (sys_world s) tasks_data of
        (r, env', w', tr) \<Rightarrow> \<lparr>sys_env = env', sys_world = w'\<rparr>)"
| "step s SignalFlowTermination =
     (case signal_flow_termination (sys_env s) (events (sys_world s)) of
        (r, evs) \<Rightarrow> s\<lparr>sys_world := (sys_world s)\<lparr>events := evs\<rparr>\<rparr>)"
| "step s (JoinTaskProcesses js) = s"

definition run :: "('k, 'v) system \<Rightarrow> ('k, 'v) action list \<Rightarrow> ('k, 'v) system" where
  "run s acts = foldl step s acts"

definition initial_system :: "flow \<Rightarrow> int \<Rightarrow> ('k, 'v) system" where
  "initial_system ft gpus =
     \<lparr>sys_env = QueueExecutionEnvironment_init ft gpus,
      sys_world = \<lparr>queues = [], events = [], messengers = []\<rparr>\<rparr>"

section \<open>The specification's words\<close>

text \<open>
  The definitions of this section follow the specification, not the code; the theorems
  compare the code with them.
\<close>

text \<open>
  The envelope \<open>publish(value)\<close> is to send: the value stamped under the messenger's own
  identity into the last received envelope, or a fresh one-entry envelope if nothing
  has been received.
\<close>

definition spec_publish_envelope :: "('k, 'v) messenger \<Rightarrow> 'v \<Rightarrow> ('k, 'v) envelope" where
  "spec_publish_envelope self message =
     (case last_message_received self of
        None \<Rightarrow> [(computation_node_id self, message)]
      | Some d \<Rightarrow> AList.update (computation_node_id self) message d)"

text \<open>The messenger after the stamp: its last received envelope, if any, holds the value.\<close>

definition spec_after_stamp :: "('k, 'v) messenger \<Rightarrow> 'v \<Rightarrow> ('k, 'v) messenger" where
  "spec_after_stamp self message =
     (case last_message_received self of
        None \<Rightarrow> self
      | Some d \<Rightarrow> self\<lparr>last_message_received := Some (spec_publish_envelope self message)\<rparr>)"

text \<open>
  What ends the wait of a suspended caller: the first tick that is not idle; while there
  is none the caller waits on (\<open>ReaderIdle\<close>).
\<close>

fun wait_ends :: "reader_tick list \<Rightarrow> reader_tick" where
  "wait_ends [] = ReaderIdle"
| "wait_ends (ReaderIdle # ts) = wait_ends ts"
| "wait_ends (t # ts) = t"

text \<open>
  A blocking, lossless send of \<open>msg\<close>: with room the message is enqueued at once; on a
  full queue the caller waits, the message is enqueued behind what is left as soon as a
  reader has taken an item, and until then the caller stays blocked and the queue as it
  is. Nothing is dropped for want of room. The wait ends otherwise only when a
  \<^verbatim>\<open>KeyboardInterrupt\<close> reaches the waiting caller: then the send raises it, the caller
  is told, and the queue is as it was.
\<close>

definition spec_blocking_send ::
  "('k, 'v) messenger \<Rightarrow> ('k, 'v) msg \<Rightarrow> ('k, 'v) msg queue \<Rightarrow> reader_tick list
     \<Rightarrow> ('k, 'v) send_result" where
  "spec_blocking_send self' msg q ticks =
     (if \<not> Queue_full q then (Returned (), self', enqueue q msg)
      else (case wait_ends ticks of
              ReaderIdle \<Rightarrow> (Blocked, self', q)
            | ReaderGets \<Rightarrow> (Returned (), self', enqueue (q\<lparr>items := tl (items q)\<rparr>) msg)
            | CallerInterrupted \<Rightarrow> (Raised KeyboardInterrupt, self', q)))"

text \<open>The first envelope the writer puts while a reader waits.\<close>

fun first_put :: "'a writer_tick list \<Rightarrow> 'a option" where
  "first_put [] = None"
| "first_put (WriterPuts x # ts) = Some x"
| "first_put (WriterIdle # ts) = first_put ts"

text \<open>
  Accelerator assignment: an entry of the topology requests acceleration when its node
  is a transform node with accelerator affinity; its rank is its place, counting from 1,
  among the requesting entries in topology order.
\<close>

definition data_requests_gpu :: "'k task_data \<Rightarrow> bool" where
  "data_requests_gpu data = (kind (fst data) = ProcessorNode \<and> device_type (fst data) = GPU)"

definition gpu_rank :: "'k task_data list \<Rightarrow> nat \<Rightarrow> nat" where
  "gpu_rank tasks_data p = length (filter data_requests_gpu (take (Suc p) tasks_data))"

text \<open>The phase of startup an effect belongs to.\<close>

fun phase :: "'k event \<Rightarrow> nat" where
  "phase (QueueCreated k) = 0"
| "phase EventCreated = 1"
| "phase (MessengerCreated k) = 2"
| "phase (TaskCreated k) = 2"
| "phase (ProcessCreated i) = 3"
| "phase (ProcessStarted i) = 4"

text \<open>
  What the waits of a join meet when the wait on a unit is interrupted at most once:
  per unit, an interrupt followed by the exit, or the exit alone; and the calls of
  \<^verbatim>\<open>join()\<close> this makes, unit by unit from index \<open>i\<close>.
\<close>

fun single_interrupts :: "bool list \<Rightarrow> join_result list" where
  "single_interrupts [] = []"
| "single_interrupts (b # bs) = (if b then [Interrupted, Exits] else [Exits]) @ single_interrupts bs"

fun joins_in_turn :: "nat \<Rightarrow> bool list \<Rightarrow> nat list" where
  "joins_in_turn i [] = []"
| "joins_in_turn i (b # bs) = (if b then [i, i] else [i]) @ joins_in_turn (Suc i) bs"

text \<open>
  The task that startup builds for an entry of the topology is a transform task on the
  entry's node when that node is a transform node, and is no transform task otherwise.
\<close>

definition entry_task :: "'k task_data \<Rightarrow> 'k task option \<Rightarrow> bool" where
  "entry_task data task =
     (if kind (fst data) = ProcessorNode
      then isinstance_ProcessorTask task \<and> computation_node (the task) = fst data
      else \<not> isinstance_ProcessorTask task)"

text \<open>
  With \<open>k\<close> accelerators detected and \<open>c\<close> already handed out: some requesting entry
  ranked beyond the accelerators left refuses the downgrade to CPU execution.
\<close>

definition downgrade_refused :: "nat \<Rightarrow> nat \<Rightarrow> 'k task_data list \<Rightarrow> bool" where
  "downgrade_refused k c tasks_data =
     list_ex
       (\<lambda>p. data_requests_gpu (tasks_data ! p) \<and> k < c + gpu_rank tasks_data p
          \<and> refuses_downgrade (fst (tasks_data ! p)))
       [0 ..< length tasks_data]"

text \<open>
  The unit \<open>u\<close> launched for entry \<open>p\<close> is assigned as the specification says: a
  requesting entry of rank \<open>i\<close> (after the \<open>c\<close> handed out before) runs on accelerator
  \<open>i - 1\<close> when the accelerators suffice and is downgraded to CPU execution otherwise;
  every other entry runs without an accelerator.
\<close>

definition unit_assigned :: "nat \<Rightarrow> nat \<Rightarrow> 'k task_data list \<Rightarrow> nat \<Rightarrow> 'k process \<Rightarrow> bool" where
  "unit_assigned k c tasks_data p u =
     (if data_requests_gpu (tasks_data ! p) then
        (if c + gpu_rank tasks_data p \<le> k
         then gpu_id u = Some (int (c + gpu_rank tasks_data p) - 1)
            \<and> computation_node (the (target_task u)) = fst (tasks_data ! p)
         else gpu_id u = None
            \<and> computation_node (the (target_task u)) = (fst (tasks_data ! p))\<lparr>device_type := CPU\<rparr>)
      else gpu_id u = None)"

text \<open>
  Startup has created a queue for the identity \<open>k\<close>: the registry of the environment
  refers, under \<open>k\<close>, to a queue of the store that was not there before.
\<close>

definition queue_created_for :: "'k environment \<Rightarrow> ('k, 'v) world \<Rightarrow> ('k, 'v) world \<Rightarrow> 'k \<Rightarrow> bool" where
  "queue_created_for env' w w' k =
     (case map_of (task_output_queues env') k of
        None \<Rightarrow> False
      | Some a \<Rightarrow> length (queues w) \<le> a \<and> a < length (queues w'))"

text \<open>
  A messenger holds the queues of its entry: it stamps under the identity of the entry's
  node, its outbound queue is the one registered for the entry's own identity and its
  inbound queue the one registered for the entry's parent (none when the entry has no
  parent or the parent has no queue).
\<close>

definition messenger_of_entry ::
  "'k environment \<Rightarrow> 'k task_data \<Rightarrow> ('k, 'v) messenger_obj \<Rightarrow> bool" where
  "messenger_of_entry env' data obj =
     (case data of (node, node_id, parent_node_id, has_children) \<Rightarrow>
        computation_node_id (messenger_fields obj) = node_ident node
        \<and> task_queue (messenger_fields obj) = map_of (task_output_queues env') node_id
        \<and> parent_task_queue (messenger_fields obj) =
            (case parent_node_id of None \<Rightarrow> None
             | Some p \<Rightarrow> map_of (task_output_queues env') p))"

section \<open>Concrete inputs\<close>

text \<open>The messengers and queues the theorems below are evaluated on.\<close>

definition ex_source :: "(nat, nat) messenger" where
  "ex_source = \<lparr>computation_node_id = 0, parent_nodes_ids = [], task_queue = Some 0,
     parent_task_queue = None, termination_event = 0, last_message_received = None\<rparr>"

definition ex_transform :: "(nat, nat) messenger" where
  "ex_transform = \<lparr>computation_node_id = 1, parent_nodes_ids = [0], task_queue = Some 1,
     parent_task_queue = Some 0, termination_event = 0, last_message_received = Some [(0, 7)]\<rparr>"

definition ex_full_queue :: "(nat, nat) msg queue" where
  "ex_full_queue = \<lparr>maxsize = 10, items =
     [Some [(0, 1)], Some [(0, 2)], Some [(0, 3)], Some [(0, 4)], Some [(0, 5)],
      Some [(0, 6)], Some [(0, 7)], Some [(0, 8)], Some [(0, 9)], Some [(0, 10)]]\<rparr>"

definition ex_empty_queue :: "(nat, nat) msg queue" where
  "ex_empty_queue = Queue 10"

definition ex_sink :: "(nat, nat) messenger" where
  "ex_sink = \<lparr>computation_node_id = 2, parent_nodes_ids = [0, 1], task_queue = Some 2,
     parent_task_queue = Some 1, termination_event = 0, last_message_received = None\<rparr>"

definition ex_started_process :: "nat process" where
  "ex_started_process = \<lparr>target_task = None, gpu_id = None, started = True\<rparr>"

definition ex_running_env :: "nat environment" where
  "ex_running_env =
     (QueueExecutionEnvironment_init BATCH 0)\<lparr>procs := [ex_started_process, ex_started_process]\<rparr>"

definition ex_producer_node :: "nat node" where
  "ex_producer_node = \<lparr>node_ident = 0, parents = None, kind = ProducerNode, device_type = CPU,
     refuses_downgrade = False\<rparr>"

definition ex_gpu_node :: "nat \<Rightarrow> bool \<Rightarrow> nat node" where
  "ex_gpu_node i refuses = \<lparr>node_ident = i, parents = Some [i - 1], kind = ProcessorNode,
     device_type = GPU, refuses_downgrade = refuses\<rparr>"

definition ex_topology :: "nat task_data list" where
  "ex_topology =
     [(ex_producer_node, 0, None, True),
      (ex_gpu_node 1 False, 1, Some 0, True),
      (ex_gpu_node 2 False, 2, Some 1, True),
      (ex_gpu_node 3 False, 3, Some 2, False)]"

definition ex_refusing_topology :: "nat task_data list" where
  "ex_refusing_topology = [(ex_producer_node, 0, None, True), (ex_gpu_node 1 True, 1, Some 0, False)]"

definition ex_world :: "(nat, nat) world" where
  "ex_world = \<lparr>queues = [], events = [], messengers = []\<rparr>"

definition ex_started_system :: "(nat, nat) system" where
  "ex_started_system = run (initial_system BATCH 2) [AlCreateAndStartProcesses ex_topology]"

definition ex_actions :: "(nat, nat) action list" where
  "ex_actions =
     [Send 0 (Publish 5) [], Receive 1 [], Send 1 (Publish 10) [],
      AlCreateAndStartProcesses ex_refusing_topology, Send 1 PassthroughTermination [],
      JoinTaskProcesses [Interrupted, Exits]]"

section \<open>The queue and the messengers: theorems\<close>


subsection \<open>The queue\<close>

lemma Queue_put_room: "\<not> Queue_full q \<Longrightarrow> Queue_put q x block ticks = (Returned (), enqueue q x)"
  by (cases ticks) simp_all

lemma Queue_put_nonblocking:
  "Queue_put q x False ticks = (if Queue_full q then (Raised Full, q) else (Returned (), enqueue q x))"
  by (cases ticks) simp_all

lemma reader_gets_makes_room:
  "Queue_wf q \<Longrightarrow> Queue_full q \<Longrightarrow>
     reader_step ReaderGets q = q\<lparr>items := tl (items q)\<rparr> \<and> \<not> Queue_full (q\<lparr>items := tl (items q)\<rparr>)"
  by (cases "items q") (auto simp: Queue_wf_def Queue_full_def)

lemma wait_ends_no_interrupt:
  "CallerInterrupted \<notin> set ticks \<Longrightarrow>
   wait_ends ticks = (if ReaderGets \<in> set ticks then ReaderGets else ReaderIdle)"
  by (induction ticks rule: wait_ends.induct) auto

lemma Queue_put_blocking:
  "Queue_wf q \<Longrightarrow>
   Queue_put q x True ticks =
     (if \<not> Queue_full q then (Returned (), enqueue q x)
      else (case wait_ends ticks of
              ReaderIdle \<Rightarrow> (Blocked, q)
            | ReaderGets \<Rightarrow> (Returned (), enqueue (q\<lparr>items := tl (items q)\<rparr>) x)
            | CallerInterrupted \<Rightarrow> (Raised KeyboardInterrupt, q)))"
proof (induction ticks)
  case Nil
  then show ?case by simp
next
  case (Cons t ticks)
  show ?case
  proof (cases "Queue_full q")
    case False
    then show ?thesis by simp
  next
    case True
    show ?thesis
    proof (cases t)
      case ReaderGets
      with True Cons.prems show ?thesis
        using reader_gets_makes_room [of q] by (simp add: Queue_put_room)
    next
      case ReaderIdle
      with True Cons show ?thesis by simp
    next
      case CallerInterrupted
      with True show ?thesis by simp
    qed
  qed
qed

lemma Queue_get_nonempty:
  "items q = x # xs \<Longrightarrow> Queue_get q ticks = (Returned x, q\<lparr>items := xs\<rparr>)"
  by (cases ticks) simp_all

lemma Queue_get_empty:
  "items q = [] \<Longrightarrow>
   Queue_get q ticks = (case first_put ticks of None \<Rightarrow> (Blocked, q) | Some x \<Rightarrow> (Returned x, q))"
proof (induction ticks)
  case Nil
  then show ?case by simp
next
  case (Cons t ticks)
  then show ?case
    by (cases t) (auto simp: Queue_full_def enqueue_def Queue_get_nonempty)
qed

text \<open>
  Every queue a run can reach holds no more than its capacity: a new queue does, and
  \<^verbatim>\<open>put\<close>, \<^verbatim>\<open>get\<close> and the other side's steps keep it so.
\<close>

lemma Queue_wf_Queue: "Queue_wf (Queue n)"
  by (simp add: Queue_wf_def Queue_def)

lemma Queue_wf_reader_step: "Queue_wf q \<Longrightarrow> Queue_wf (reader_step t q)"
  by (cases t; cases "items q") (auto simp: Queue_wf_def)

lemma Queue_wf_writer_step: "Queue_wf q \<Longrightarrow> Queue_wf (writer_step t q)"
  by (cases t) (auto simp: Queue_wf_def Queue_full_def enqueue_def)

lemma Queue_wf_put: "Queue_wf q \<Longrightarrow> Queue_wf (snd (Queue_put q x block ticks))"
proof (induction ticks arbitrary: q)
  case Nil
  then show ?case by (auto simp: Queue_wf_def Queue_full_def enqueue_def)
next
  case (Cons t ticks)
  from Cons.IH [OF Queue_wf_reader_step [OF Cons.prems, of t]] Cons.prems
  show ?case by (auto simp: Queue_wf_def Queue_full_def enqueue_def)
qed

lemma Queue_wf_get: "Queue_wf q \<Longrightarrow> Queue_wf (snd (Queue_get q ticks))"
proof (induction ticks arbitrary: q)
  case Nil
  then show ?case by (cases "items q") (auto simp: Queue_wf_def)
next
  case (Cons t ticks)
  from Cons.IH [OF Queue_wf_writer_step [OF Cons.prems, of t]] Cons.prems
  show ?case by (cases "items q") (auto simp: Queue_wf_def)
qed

subsection \<open>Sends\<close>

lemma task_queue_put_blocking:
  "Queue_wf q \<Longrightarrow> task_queue_put self q msg True ticks = spec_blocking_send self msg q ticks"
  by (simp add: task_queue_put_def Queue_put_blocking spec_blocking_send_def
      split: reader_tick.splits)

lemma task_queue_put_nonblocking:
  "task_queue_put self q msg False ticks =
     (if Queue_full q then (Raised Full, self, q) else (Returned (), self, enqueue q msg))"
  by (simp add: task_queue_put_def Queue_put_nonblocking)

lemma task_queue_put_room:
  "\<not> Queue_full q \<Longrightarrow> task_queue_put self q msg block ticks = (Returned (), self, enqueue q msg)"
  by (simp add: task_queue_put_def Queue_put_room)

lemma try_except_pass_blocking_send:
  "try_except_pass (spec_blocking_send self msg q ticks) =
     (if Queue_full q \<and> wait_ends ticks = CallerInterrupted then (Returned (), self, q)
      else spec_blocking_send self msg q ticks)"
  by (simp add: spec_blocking_send_def split: reader_tick.splits)

lemma map_of_spec_publish_envelope:
  "map_of (spec_publish_envelope self message) k =
     (if k = computation_node_id self then Some message
      else (case last_message_received self of None \<Rightarrow> None | Some d \<Rightarrow> map_of d k))"
  by (simp add: spec_publish_envelope_def update_conv' split: option.splits)

lemma index_all_Some:
  "index_all (Some d) ps =
     (if list_all (\<lambda>a. map_of d a \<noteq> None) ps then Returned (map (\<lambda>a. the (map_of d a)) ps)
      else Raised KeyError)"
  by (induction ps) (auto split: option.splits)

lemma index_all_None:
  "index_all None ps = (if ps = [] then Returned [] else Raised TypeError)"
  by (cases ps) simp_all


text \<open>
  C1. Under the lossless (batch) policy each of the four sends is a blocking enqueue: on
  every well-formed queue (one holding no more than its capacity) the call is exactly
  the lossless blocking send of the specification. With room the envelope is enqueued at
  once; on a full queue the caller stays blocked, with the queue untouched, for as long
  as no reader takes an item, and once a reader has taken one the envelope is enqueued
  behind everything that was left. No item is dropped: the one other way the wait can
  end is a \<^verbatim>\<open>KeyboardInterrupt\<close> reaching the waiting caller, which these sends, having
  no handler, raise to the caller. In particular on a queue of capacity 10 that holds 10
  items the publish is blocked exactly as long as no item has been removed.
\<close>

theorem batch_sends_block_until_room:
  assumes "Queue_wf q"
  shows "batch_publish_message self message q ticks =
           spec_blocking_send (spec_after_stamp self message)
             (Some (spec_publish_envelope self message)) q ticks
       \<and> batch_publish_termination_message self message q ticks =
           spec_blocking_send (spec_after_stamp self message)
             (Some (spec_publish_envelope self message)) q ticks
       \<and> batch_passthrough_message self q ticks =
           spec_blocking_send self (last_message_received self) q ticks
       \<and> batch_passthrough_termination_message self q ticks =
           spec_blocking_send self (last_message_received self) q ticks
       \<and> (maxsize q = 10 \<and> length (items q) = 10 \<longrightarrow>
            fst (batch_publish_message self message q ticks) =
              (case wait_ends ticks of
                 ReaderIdle \<Rightarrow> Blocked
               | ReaderGets \<Rightarrow> Returned ()
               | CallerInterrupted \<Rightarrow> Raised KeyboardInterrupt))
       \<and> (maxsize q = 10 \<and> length (items q) = 10 \<and> CallerInterrupted \<notin> set ticks \<longrightarrow>
            fst (batch_publish_message self message q ticks) =
              (if ReaderGets \<in> set ticks then Returned () else Blocked))"
proof -
  have pub: "batch_publish_message self message q ticks =
           spec_blocking_send (spec_after_stamp self message)
             (Some (spec_publish_envelope self message)) q ticks"
    using assms
    by (simp add: batch_publish_message_def task_queue_put_blocking spec_after_stamp_def
        spec_publish_envelope_def split: option.splits)
  have pas: "batch_passthrough_message self q ticks =
           spec_blocking_send self (last_message_received self) q ticks"
    using assms by (simp add: batch_passthrough_message_def task_queue_put_blocking)
  have ten: "maxsize q = 10 \<and> length (items q) = 10 \<longrightarrow>
            fst (batch_publish_message self message q ticks) =
              (case wait_ends ticks of
                 ReaderIdle \<Rightarrow> Blocked
               | ReaderGets \<Rightarrow> Returned ()
               | CallerInterrupted \<Rightarrow> Raised KeyboardInterrupt)"
    unfolding pub by (simp add: spec_blocking_send_def Queue_full_def split: reader_tick.splits)
  have ten': "maxsize q = 10 \<and> length (items q) = 10 \<and> CallerInterrupted \<notin> set ticks \<longrightarrow>
            fst (batch_publish_message self message q ticks) =
              (if ReaderGets \<in> set ticks then Returned () else Blocked)"
    using ten by (simp add: wait_ends_no_interrupt)
  from pub pas ten ten' show ?thesis
    by (simp add: batch_publish_termination_message_def batch_passthrough_termination_message_def)
qed

theorem batch_sends_block_until_room_witness:
  "Queue_wf ex_full_queue
   \<and> batch_publish_message ex_source 11 ex_full_queue [ReaderIdle, ReaderIdle] =
       (Blocked, ex_source, ex_full_queue)
   \<and> batch_publish_message ex_source 11 ex_full_queue [ReaderIdle, ReaderGets] =
       (Returned (), ex_source, ex_full_queue\<lparr>items := tl (items ex_full_queue) @ [Some [(0, 11)]]\<rparr>)
   \<and> batch_passthrough_message ex_transform ex_full_queue [ReaderIdle] =
       (Blocked, ex_transform, ex_full_queue)
   \<and> batch_publish_message ex_source 11 ex_full_queue [ReaderIdle, CallerInterrupted, ReaderGets] =
       (Raised KeyboardInterrupt, ex_source, ex_full_queue)"
proof -
  have wf: "Queue_wf ex_full_queue"
    by (simp add: Queue_wf_def ex_full_queue_def)
  have full: "Queue_full ex_full_queue"
    by (simp add: Queue_full_def ex_full_queue_def)
  show ?thesis
    using wf full
      batch_sends_block_until_room [OF wf, of ex_source 11 "[ReaderIdle, ReaderIdle]"]
      batch_sends_block_until_room [OF wf, of ex_source 11 "[ReaderIdle, ReaderGets]"]
      batch_sends_block_until_room [OF wf, of ex_transform 11 "[ReaderIdle]"]
      batch_sends_block_until_room [OF wf, of ex_source 11 "[ReaderIdle, CallerInterrupted, ReaderGets]"]
    by (simp add: spec_blocking_send_def spec_after_stamp_def spec_publish_envelope_def
        enqueue_def ex_source_def)
qed

text \<open>
  C2 (as amended). Under the lossy (realtime) policy, \<^verbatim>\<open>publish_message\<close> and
  \<^verbatim>\<open>passthrough_message\<close> on a full queue return normally (the \<^verbatim>\<open>Full\<close> exception of the
  non-blocking put is swallowed, and the caller is never blocked), and the queue is left
  exactly as it was: the new envelope is not enqueued. \<^verbatim>\<open>passthrough_message\<close> leaves the
  messenger as it was too. \<^verbatim>\<open>publish_message\<close> leaves the messenger as it was when nothing
  has been received; when an envelope has been received it has already stamped the value
  into the messenger's last received envelope, and the messenger keeps it.
\<close>

theorem realtime_sends_drop_when_full:
  assumes "Queue_full q"
  shows "realtime_publish_message self message q ticks =
           (Returned (), spec_after_stamp self message, q)
       \<and> realtime_passthrough_message self q ticks = (Returned (), self, q)"
  using assms
  by (simp add: realtime_publish_message_def realtime_passthrough_message_def
      task_queue_put_nonblocking spec_after_stamp_def spec_publish_envelope_def
      split: option.splits)

theorem realtime_sends_drop_when_full_witness:
  "Queue_full ex_full_queue
   \<and> realtime_publish_message ex_source 11 ex_full_queue [] = (Returned (), ex_source, ex_full_queue)
   \<and> realtime_publish_message ex_transform 99 ex_full_queue [] =
       (Returned (), ex_transform\<lparr>last_message_received := Some [(0, 7), (1, 99)]\<rparr>, ex_full_queue)
   \<and> realtime_passthrough_message ex_transform ex_full_queue [] =
       (Returned (), ex_transform, ex_full_queue)"
proof -
  have full: "Queue_full ex_full_queue"
    by (simp add: Queue_full_def ex_full_queue_def)
  show ?thesis
    using full realtime_sends_drop_when_full [OF full, of ex_source 11 "[]"]
      realtime_sends_drop_when_full [OF full, of ex_transform 99 "[]"]
    by (simp add: spec_after_stamp_def spec_publish_envelope_def ex_source_def ex_transform_def)
qed

text \<open>
  C2 as stated fails: the publish that finds the queue full is not a no-op and its value
  is not gone. A messenger that has received \<open>{0: 7}\<close> and publishes 99 on the full queue
  returns with the queue unchanged but is no longer the messenger it was, and its next
  \<^verbatim>\<open>passthrough_message\<close>, on a queue with room, sends \<open>{0: 7, 1: 99}\<close>.
\<close>

theorem realtime_publish_on_full_queue_keeps_value:
  "realtime_publish_message ex_transform 99 ex_full_queue [] =
     (Returned (), ex_transform\<lparr>last_message_received := Some [(0, 7), (1, 99)]\<rparr>, ex_full_queue)
   \<and> ex_transform\<lparr>last_message_received := Some [(0, 7), (1, 99)]\<rparr> \<noteq> ex_transform
   \<and> realtime_passthrough_message (ex_transform\<lparr>last_message_received := Some [(0, 7), (1, 99)]\<rparr>)
       ex_empty_queue [] =
     (Returned (), ex_transform\<lparr>last_message_received := Some [(0, 7), (1, 99)]\<rparr>,
      ex_empty_queue\<lparr>items := [Some [(0, 7), (1, 99)]]\<rparr>)"
  by (simp add: realtime_publish_message_def realtime_passthrough_message_def
      task_queue_put_nonblocking Queue_full_def enqueue_def ex_transform_def ex_full_queue_def
      ex_empty_queue_def Queue_def)

text \<open>
  The two termination sends of the lossy (realtime) policy take the blocking path, inside
  \<^verbatim>\<open>try: ... except: pass\<close>. On every well-formed queue they are the lossless blocking send
  of the specification but for one case: a \<^verbatim>\<open>KeyboardInterrupt\<close> that reaches the caller
  while it waits on a full queue is swallowed by the handler, and the call returns
  normally with nothing enqueued.
\<close>

lemma realtime_termination_sends:
  assumes "Queue_wf q"
  shows "realtime_publish_termination_message self message q ticks =
           (if Queue_full q \<and> wait_ends ticks = CallerInterrupted
            then (Returned (), spec_after_stamp self message, q)
            else spec_blocking_send (spec_after_stamp self message)
                   (Some (spec_publish_envelope self message)) q ticks)"
    and "realtime_passthrough_termination_message self q ticks =
           (if Queue_full q \<and> wait_ends ticks = CallerInterrupted then (Returned (), self, q)
            else spec_blocking_send self (last_message_received self) q ticks)"
  using assms
  by (auto simp: realtime_publish_termination_message_def
      realtime_passthrough_termination_message_def try_except_pass_blocking_send
      task_queue_put_blocking spec_after_stamp_def spec_publish_envelope_def Let_def
      split: option.splits)

text \<open>
  C3 does not hold of the code. With the queue of capacity 10 full and a
  \<^verbatim>\<open>KeyboardInterrupt\<close> reaching the caller while it waits, both termination sends return
  normally, the queue is as it was, and the termination envelope is gone, although a
  reader takes an item right afterwards; the batch send at the same input raises the
  interrupt to its caller. The docstrings of the class and of
  \<^verbatim>\<open>publish_termination_message\<close> say the termination message cannot be dropped.
\<close>

theorem realtime_termination_send_dropped_on_interrupt:
  "realtime_publish_termination_message ex_source 11 ex_full_queue [ReaderIdle, CallerInterrupted, ReaderGets] =
     (Returned (), ex_source, ex_full_queue)
   \<and> realtime_passthrough_termination_message ex_transform ex_full_queue [CallerInterrupted, ReaderGets] =
     (Returned (), ex_transform, ex_full_queue)
   \<and> batch_publish_termination_message ex_source 11 ex_full_queue [ReaderIdle, CallerInterrupted, ReaderGets] =
     (Raised KeyboardInterrupt, ex_source, ex_full_queue)"
  by (simp add: realtime_publish_termination_message_def
      realtime_passthrough_termination_message_def batch_publish_termination_message_def
      batch_publish_message_def task_queue_put_def Queue_full_def ex_source_def ex_transform_def
      ex_full_queue_def)

text \<open>
  C4. For both messengers \<^verbatim>\<open>publish_message(value)\<close> on a queue with room enqueues the
  envelope of the specification: a fresh one-entry mapping from the messenger's own node
  identity to the value when nothing has been received, otherwise the last received
  envelope with the value stamped under the messenger's own identity, every other entry
  as it was.
\<close>

theorem publish_message_stamps_envelope:
  assumes "\<not> Queue_full q"
  shows "batch_publish_message self message q ticks =
           (Returned (), spec_after_stamp self message,
            enqueue q (Some (spec_publish_envelope self message)))
       \<and> realtime_publish_message self message q ticks =
           (Returned (), spec_after_stamp self message,
            enqueue q (Some (spec_publish_envelope self message)))
       \<and> (last_message_received self = None \<longrightarrow>
            spec_publish_envelope self message = [(computation_node_id self, message)])
       \<and> map_of (spec_publish_envelope self message) (computation_node_id self) = Some message
       \<and> (\<forall>d k. last_message_received self = Some d \<and> k \<noteq> computation_node_id self \<longrightarrow>
            map_of (spec_publish_envelope self message) k = map_of d k)"
proof -
  have "batch_publish_message self message q ticks =
           (Returned (), spec_after_stamp self message,
            enqueue q (Some (spec_publish_envelope self message)))"
    using assms
    by (simp add: batch_publish_message_def task_queue_put_room spec_after_stamp_def
        spec_publish_envelope_def split: option.splits)
  moreover have "realtime_publish_message self message q ticks =
           (Returned (), spec_after_stamp self message,
            enqueue q (Some (spec_publish_envelope self message)))"
    using assms
    by (simp add: realtime_publish_message_def task_queue_put_room spec_after_stamp_def
        spec_publish_envelope_def split: option.splits)
  moreover have "last_message_received self = None \<longrightarrow>
            spec_publish_envelope self message = [(computation_node_id self, message)]"
    by (simp add: spec_publish_envelope_def)
  ultimately show ?thesis
    by (simp add: map_of_spec_publish_envelope)
qed

theorem publish_message_stamps_envelope_witness:
  "\<not> Queue_full ex_empty_queue
   \<and> batch_publish_message ex_source 7 ex_empty_queue [] =
       (Returned (), ex_source, ex_empty_queue\<lparr>items := [Some [(0, 7)]]\<rparr>)
   \<and> realtime_publish_message ex_transform 14 ex_empty_queue [] =
       (Returned (), ex_transform\<lparr>last_message_received := Some [(0, 7), (1, 14)]\<rparr>,
        ex_empty_queue\<lparr>items := [Some [(0, 7), (1, 14)]]\<rparr>)"
proof -
  have room: "\<not> Queue_full ex_empty_queue"
    by (simp add: Queue_full_def ex_empty_queue_def Queue_def)
  show ?thesis
    using room publish_message_stamps_envelope [OF room, of ex_source 7 "[]"]
      publish_message_stamps_envelope [OF room, of ex_transform 14 "[]"]
    by (simp add: spec_after_stamp_def spec_publish_envelope_def enqueue_def ex_source_def
        ex_transform_def ex_empty_queue_def Queue_def)
qed

lemma receive_message_unfold:
  "batch_receive_message self (Some q) ticks =
     (case items q of
        x # xs \<Rightarrow> (index_all x (parent_nodes_ids self), self\<lparr>last_message_received := x\<rparr>,
                   Some (q\<lparr>items := xs\<rparr>))
      | [] \<Rightarrow>
          (case first_put ticks of
             None \<Rightarrow> (Blocked, self, Some q)
           | Some x \<Rightarrow> (index_all x (parent_nodes_ids self), self\<lparr>last_message_received := x\<rparr>,
                       Some q)))"
  "realtime_receive_message self (Some q) ticks = batch_receive_message self (Some q) ticks"
  by (auto simp: batch_receive_message_def realtime_receive_message_def Queue_get_nonempty
      Queue_get_empty split: list.splits option.splits)

text \<open>
  C5. For both messengers \<^verbatim>\<open>receive_message\<close> reads the next envelope of the inbound queue
  (the head of a non-empty queue; on an empty queue the first envelope the writer puts,
  and the caller stays blocked while there is none), records it as the last received
  envelope, and returns the values at the configured parent identities in their order.
  A parent identity absent from the envelope makes the call raise \<^verbatim>\<open>KeyError\<close>: there
  is no partial result.
\<close>

theorem receive_message_reads_next_envelope:
  "(items q = x # xs \<longrightarrow>
      batch_receive_message self (Some q) ticks =
        (index_all x (parent_nodes_ids self), self\<lparr>last_message_received := x\<rparr>,
         Some (q\<lparr>items := xs\<rparr>))
    \<and> realtime_receive_message self (Some q) ticks =
        (index_all x (parent_nodes_ids self), self\<lparr>last_message_received := x\<rparr>,
         Some (q\<lparr>items := xs\<rparr>)))
   \<and> (items q = [] \<and> first_put ticks = Some x \<longrightarrow>
      batch_receive_message self (Some q) ticks =
        (index_all x (parent_nodes_ids self), self\<lparr>last_message_received := x\<rparr>, Some q)
    \<and> realtime_receive_message self (Some q) ticks =
        (index_all x (parent_nodes_ids self), self\<lparr>last_message_received := x\<rparr>, Some q))
   \<and> (items q = [] \<and> first_put ticks = None \<longrightarrow>
      batch_receive_message self (Some q) ticks = (Blocked, self, Some q)
    \<and> realtime_receive_message self (Some q) ticks = (Blocked, self, Some q))
   \<and> index_all (Some d) ps =
       (if list_all (\<lambda>a. map_of d a \<noteq> None) ps then Returned (map (\<lambda>a. the (map_of d a)) ps)
        else Raised KeyError)"
  by (simp add: receive_message_unfold index_all_Some)

theorem receive_message_reads_next_envelope_witness:
  "batch_receive_message ex_sink (Some (ex_empty_queue\<lparr>items := [Some [(0, 7), (1, 14)], None]\<rparr>)) [] =
     (Returned [7, 14], ex_sink\<lparr>last_message_received := Some [(0, 7), (1, 14)]\<rparr>,
      Some (ex_empty_queue\<lparr>items := [None]\<rparr>))
   \<and> realtime_receive_message ex_sink (Some (ex_empty_queue\<lparr>items := [Some [(1, 14)]]\<rparr>)) [] =
     (Raised KeyError, ex_sink\<lparr>last_message_received := Some [(1, 14)]\<rparr>,
      Some (ex_empty_queue\<lparr>items := []\<rparr>))
   \<and> batch_receive_message ex_sink (Some ex_empty_queue) [WriterIdle] =
     (Blocked, ex_sink, Some ex_empty_queue)"
  using receive_message_reads_next_envelope
      [of "ex_empty_queue\<lparr>items := [Some [(0, 7), (1, 14)], None]\<rparr>" "Some [(0, 7), (1, 14)]" "[None]"
        ex_sink "[]" "[(0::nat, 7::nat), (1, 14)]" "[0::nat, 1]"]
    receive_message_reads_next_envelope
      [of "ex_empty_queue\<lparr>items := [Some [(1, 14)]]\<rparr>" "Some [(1, 14)]" "[]"
        ex_sink "[]" "[(1::nat, 14::nat)]" "[0::nat, 1]"]
    receive_message_reads_next_envelope
      [of ex_empty_queue None "[]" ex_sink "[WriterIdle]" "[] :: (nat \<times> nat) list" "[] :: nat list"]
  by (simp add: ex_sink_def ex_empty_queue_def Queue_def)

text \<open>
  C10. Before any receive the last received envelope is \<^verbatim>\<open>None\<close>, and on a queue with
  room the passthrough calls of both messengers (the termination variants included)
  return normally having enqueued \<^verbatim>\<open>None\<close>. A downstream \<^verbatim>\<open>receive_message\<close> that reads it
  records \<^verbatim>\<open>None\<close> as its last received envelope and raises \<^verbatim>\<open>TypeError\<close> when it indexes
  it (it returns the empty list only when it has no parent identity to look up).
\<close>

theorem passthrough_before_receive_sends_None:
  assumes "last_message_received self = None" and "\<not> Queue_full q"
  shows "batch_passthrough_message self q ticks = (Returned (), self, enqueue q None)
       \<and> batch_passthrough_termination_message self q ticks = (Returned (), self, enqueue q None)
       \<and> realtime_passthrough_message self q ticks = (Returned (), self, enqueue q None)
       \<and> realtime_passthrough_termination_message self q ticks = (Returned (), self, enqueue q None)
       \<and> (items q = [] \<longrightarrow>
            batch_receive_message child (Some (enqueue q None)) wticks =
              (if parent_nodes_ids child = [] then Returned [] else Raised TypeError,
               child\<lparr>last_message_received := None\<rparr>, Some q)
          \<and> realtime_receive_message child (Some (enqueue q None)) wticks =
              (if parent_nodes_ids child = [] then Returned [] else Raised TypeError,
               child\<lparr>last_message_received := None\<rparr>, Some q))"
  using assms
  by (simp add: batch_passthrough_message_def batch_passthrough_termination_message_def
      realtime_passthrough_message_def realtime_passthrough_termination_message_def
      task_queue_put_room receive_message_unfold enqueue_def index_all_None)

theorem passthrough_before_receive_sends_None_witness:
  "last_message_received ex_source = None \<and> \<not> Queue_full ex_empty_queue
   \<and> batch_passthrough_message ex_source ex_empty_queue [] =
       (Returned (), ex_source, ex_empty_queue\<lparr>items := [None]\<rparr>)
   \<and> realtime_passthrough_termination_message ex_source ex_empty_queue [] =
       (Returned (), ex_source, ex_empty_queue\<lparr>items := [None]\<rparr>)
   \<and> batch_receive_message ex_transform (Some (ex_empty_queue\<lparr>items := [None]\<rparr>)) [] =
       (Raised TypeError, ex_transform\<lparr>last_message_received := None\<rparr>, Some ex_empty_queue)"
proof -
  have none: "last_message_received ex_source = None"
    by (simp add: ex_source_def)
  have room: "\<not> Queue_full ex_empty_queue"
    by (simp add: Queue_full_def ex_empty_queue_def Queue_def)
  show ?thesis
    using none room
      passthrough_before_receive_sends_None [OF none room, of "[]" ex_transform "[]"]
    by (simp add: enqueue_def ex_empty_queue_def Queue_def ex_transform_def)
qed

subsection \<open>The scenarios of the specification\<close>

text \<open>
  Capacity boundary: ten publishes of a source on an undrained queue of capacity 10 fill
  it; the eleventh lossless publish is blocked, the eleventh lossy publish returns with
  the queue as it was. Envelope accumulation: what a source stamps reaches, unchanged, a
  node two steps downstream that asks for it by identity.
\<close>

lemma eleventh_publish_on_undrained_queue:
  "fold (\<lambda>v q. snd (snd (batch_publish_message ex_source v q []))) [1, 2, 3, 4, 5, 6, 7, 8, 9, 10]
     (Queue 10) = ex_full_queue"
  "fold (\<lambda>v q. snd (snd (realtime_publish_message ex_source v q []))) [1, 2, 3, 4, 5, 6, 7, 8, 9, 10]
     (Queue 10) = ex_full_queue"
  "batch_publish_message ex_source 11 ex_full_queue [ReaderIdle, ReaderIdle, ReaderIdle] =
     (Blocked, ex_source, ex_full_queue)"
  "realtime_publish_message ex_source 11 ex_full_queue [] = (Returned (), ex_source, ex_full_queue)"
  by code_simp+

lemma envelope_accumulation_example:
  "(case batch_publish_message ex_source 7 (Queue 10) [] of
      (r1, a, q0) \<Rightarrow>
        (case batch_receive_message (ex_transform\<lparr>last_message_received := None\<rparr>) (Some q0) [] of
           (r2, b, q0') \<Rightarrow>
             (case batch_publish_message b 14 (Queue 10) [] of
                (r3, b', q1) \<Rightarrow>
                  (case batch_receive_message ex_sink (Some q1) [] of
                     (r4, k, q1') \<Rightarrow> (r2, r4, last_message_received k))))) =
   (Returned [7], Returned [7, 14], Some [(0, 7), (1, 14)])"
  by code_simp

section \<open>The execution environment: theorems\<close>


lemma join_loop_single_interrupts:
  "list_all started finished \<Longrightarrow> length bs = length finished \<Longrightarrow>
   join_loop (finished @ todo) i (single_interrupts bs @ rest) =
     (case join_loop todo (i + length finished) rest of
        (r, calls) \<Rightarrow> (r, joins_in_turn i bs @ calls))"
proof (induction finished arbitrary: bs i)
  case Nil
  then show ?case by (simp split: prod.splits)
next
  case (Cons p finished)
  then obtain b bs' where bs: "bs = b # bs'" by (cases bs) auto
  with Cons.prems have "list_all started finished" "length bs' = length finished" "started p"
    by auto
  with Cons.IH [of bs' "Suc i"] bs show ?case
    by (cases b) (simp_all add: Process_join_def split: prod.splits)
qed

lemma join_loop_double_interrupt:
  "started p \<Longrightarrow>
   join_loop (p # ps) i (Interrupted # Interrupted # js) = (Raised KeyboardInterrupt, [i, i])"
  by (simp add: Process_join_def)

text \<open>
  C9 (as amended). \<^verbatim>\<open>join_task_processes\<close> waits for the units in turn. When the wait on
  a unit is interrupted once, the interrupt is absorbed, the wait on that unit is called
  a second time, and when that wait ends joining goes on with the next unit: if no wait
  is interrupted twice the call returns normally having joined every unit. The retry is
  a single one: an interrupt of the second wait on a unit is raised to the caller, and
  the units after it are not waited for.
\<close>

theorem join_retries_an_interrupted_wait_once:
  assumes "list_all started (procs env)"
  shows "(length bs = length (procs env) \<longrightarrow>
            join_task_processes env (single_interrupts bs @ rest) = (Returned (), joins_in_turn 0 bs))
       \<and> (procs env = finished @ p # todo \<and> length bs = length finished \<longrightarrow>
            join_task_processes env (single_interrupts bs @ Interrupted # Interrupted # rest) =
              (Raised KeyboardInterrupt, joins_in_turn 0 bs @ [length finished, length finished]))"
proof (intro conjI impI)
  assume "length bs = length (procs env)"
  with assms join_loop_single_interrupts [of "procs env" bs "[]" 0 rest]
  show "join_task_processes env (single_interrupts bs @ rest) = (Returned (), joins_in_turn 0 bs)"
    by (simp add: join_task_processes_def)
next
  assume a: "procs env = finished @ p # todo \<and> length bs = length finished"
  with assms have "list_all started finished" "started p" by auto
  with a join_loop_single_interrupts [of finished bs "p # todo" 0 "Interrupted # Interrupted # rest"]
  show "join_task_processes env (single_interrupts bs @ Interrupted # Interrupted # rest) =
          (Raised KeyboardInterrupt, joins_in_turn 0 bs @ [length finished, length finished])"
    by (simp add: join_task_processes_def Process_join_def)
qed

theorem join_retries_an_interrupted_wait_once_witness:
  "list_all started (procs ex_running_env)
   \<and> join_task_processes ex_running_env [Interrupted, Exits, Exits] = (Returned (), [0, 0, 1])
   \<and> join_task_processes ex_running_env [Exits, Interrupted, Interrupted] =
       (Raised KeyboardInterrupt, [0, 1, 1])"
proof -
  have st: "list_all started (procs ex_running_env)"
    by (simp add: ex_running_env_def ex_started_process_def)
  have pr: "procs ex_running_env = [ex_started_process] @ ex_started_process # []"
    by (simp add: ex_running_env_def)
  show ?thesis
    using st pr
      join_retries_an_interrupted_wait_once [OF st, of "[True, False]" "[]" "[]" ex_started_process "[]"]
      join_retries_an_interrupted_wait_once
        [OF st, of "[False]" "[]" "[ex_started_process]" ex_started_process "[]"]
    by (simp add: ex_running_env_def)
qed

text \<open>
  C9 as stated fails: with two started units and two interrupts during the wait on the
  first, the call raises \<^verbatim>\<open>KeyboardInterrupt\<close> after two joins of unit 0 and never joins
  unit 1.
\<close>

theorem join_second_interrupt_propagates:
  "join_task_processes ex_running_env [Interrupted, Interrupted, Exits, Exits] =
     (Raised KeyboardInterrupt, [0, 0])"
  by (simp add: join_task_processes_def ex_running_env_def ex_started_process_def
      Process_join_def)



lemma isinstance_ProcessorTaskE:
  assumes "isinstance_ProcessorTask task"
  obtains n m i p where "task = Some (ProcessorTask n m i p)"
  using assms by (cases task rule: isinstance_ProcessorTask.cases) auto

lemma create_messenger_bound:
  "flow_type env \<noteq> OtherFlow \<Longrightarrow>
   \<exists>obj. create_messenger env ev data mvar ms =
     (Some (length ms), ms @ [obj], [MessengerCreated (fst (snd data))])"
  by (cases "flow_type env") (auto simp: create_messenger_def split: prod.splits)

lemma create_task_bound:
  "\<exists>task. create_task data (Some m) = Returned task \<and> entry_task data task"
  by (cases "kind (fst data)") (auto simp: create_task_def entry_task_def split: prod.splits)

lemma initialize_tasks_bound:
  "flow_type env \<noteq> OtherFlow \<Longrightarrow>
   \<exists>tasks ms' tr. initialize_tasks env ev tasks_data mvar ms = (Returned tasks, ms', tr)
      \<and> list_all2 entry_task tasks_data tasks \<and> list_all (\<lambda>e. phase e = 2) tr"
proof (induction tasks_data arbitrary: mvar ms)
  case Nil
  then show ?case by simp
next
  case (Cons data rest)
  from create_messenger_bound [OF Cons.prems, of ev data mvar ms]
  obtain obj where cm: "create_messenger env ev data mvar ms =
     (Some (length ms), ms @ [obj], [MessengerCreated (fst (snd data))])" by blast
  from create_task_bound [of data "length ms"]
  obtain task where ct: "create_task data (Some (length ms)) = Returned task"
    and et: "entry_task data task" by blast
  from Cons.IH [OF Cons.prems, of "Some (length ms)" "ms @ [obj]"]
  obtain tasks ms' tr where
    it: "initialize_tasks env ev rest (Some (length ms)) (ms @ [obj]) = (Returned tasks, ms', tr)"
    and rel: "list_all2 entry_task rest tasks" and ph: "list_all (\<lambda>e. phase e = 2) tr" by blast
  from cm ct it et rel ph show ?case
    by (cases task) simp_all
qed

lemma start_processes_fresh:
  "list_all (\<lambda>p. \<not> started p) ps \<Longrightarrow>
   \<exists>tr. start_processes ps i = (Returned (), map (\<lambda>p. p\<lparr>started := True\<rparr>) ps, tr)
      \<and> list_all (\<lambda>e. phase e = 4) tr \<and> length tr = length ps"
proof (induction ps arbitrary: i)
  case Nil
  then show ?case by simp
next
  case (Cons p ps)
  then have "list_all (\<lambda>p. \<not> started p) ps" and "\<not> started p" by simp_all
  with Cons.IH [of "Suc i"] show ?case by auto
qed


lemma gpu_rank_Cons_0: "gpu_rank (d # td) 0 = (if data_requests_gpu d then 1 else 0)"
  by (simp add: gpu_rank_def)

lemma gpu_rank_Cons_Suc:
  "gpu_rank (d # td) (Suc p) = (if data_requests_gpu d then 1 else 0) + gpu_rank td p"
  by (simp add: gpu_rank_def)

lemma downgrade_refused_iff:
  "downgrade_refused k c tasks_data =
     (\<exists>p<length tasks_data. data_requests_gpu (tasks_data ! p) \<and> k < c + gpu_rank tasks_data p
        \<and> refuses_downgrade (fst (tasks_data ! p)))"
  by (auto simp: downgrade_refused_def list_ex_iff)

lemma downgrade_refused_Nil: "\<not> downgrade_refused k c []"
  by (simp add: downgrade_refused_iff)

lemma downgrade_refused_Cons:
  "downgrade_refused k c (d # td) =
     (if data_requests_gpu d then (k \<le> c \<and> refuses_downgrade (fst d)) \<or> downgrade_refused k (Suc c) td
      else downgrade_refused k c td)"
  by (auto simp: downgrade_refused_iff Ex_less_Suc2 gpu_rank_Cons_0 gpu_rank_Cons_Suc)

lemma unit_assigned_Cons_0:
  "unit_assigned k c (d # td) 0 u =
     (if data_requests_gpu d then
        (if c < k then gpu_id u = Some (int c) \<and> computation_node (the (target_task u)) = fst d
         else gpu_id u = None
            \<and> computation_node (the (target_task u)) = (fst d)\<lparr>device_type := CPU\<rparr>)
      else gpu_id u = None)"
  by (auto simp: unit_assigned_def gpu_rank_Cons_0)

lemma unit_assigned_Cons_Suc:
  "unit_assigned k c (d # td) (Suc p) u =
     unit_assigned k (if data_requests_gpu d then Suc c else c) td p u"
  by (simp add: unit_assigned_def gpu_rank_Cons_Suc)

lemma create_process_entry:
  assumes "entry_task d task" and "next_gpu env = int c - 1" and "nb_available_gpus env = int k"
  shows "\<exists>r env1. create_process task env = (r, env1)
      \<and> procs env1 = procs env \<and> nb_available_gpus env1 = int k
      \<and> next_gpu env1 = int (if data_requests_gpu d then Suc c else c) - 1
      \<and> (if data_requests_gpu d \<and> k \<le> c \<and> refuses_downgrade (fst d) then r = Raised RuntimeError
          else \<exists>u. r = Returned u \<and> \<not> started u \<and> unit_assigned k c (d # td) 0 u)"
proof (cases "kind (fst d) = ProcessorNode")
  case False
  with assms show ?thesis
    by (simp add: entry_task_def create_process_def data_requests_gpu_def
        unit_assigned_Cons_0 create_process_task_def)
next
  case True
  with assms(1) have inst: "isinstance_ProcessorTask task"
    and node: "computation_node (the task) = fst d"
    by (simp_all add: entry_task_def)
  from inst obtain n m i p where task: "task = Some (ProcessorTask n m i p)"
    by (rule isinstance_ProcessorTaskE)
  with node have n: "n = fst d" by simp
  show ?thesis
  proof (cases "device_type (fst d) = GPU")
    case False
    with True assms task n show ?thesis
      by (simp add: create_process_def data_requests_gpu_def task_device_type_def
          unit_assigned_Cons_0 create_process_task_def)
  next
    case gpu: True
    show ?thesis
    proof (cases "c < k")
      case lt: True
      with gpu True assms task n show ?thesis
        by (simp add: create_process_def data_requests_gpu_def task_device_type_def Let_def
            unit_assigned_Cons_0 create_process_task_gpu_def)
    next
      case ge: False
      with gpu True assms task n show ?thesis
        by (cases "refuses_downgrade (fst d)")
          (simp_all add: create_process_def data_requests_gpu_def task_device_type_def Let_def
            unit_assigned_Cons_0 create_process_task_def)
    qed
  qed
qed

lemma create_processes_assign:
  assumes "list_all2 entry_task tasks_data tasks"
      and "next_gpu env = int c - 1" and "nb_available_gpus env = int k"
  shows "\<exists>r env' tr new. create_processes tasks env = (r, env', tr)
      \<and> procs env' = procs env @ new \<and> list_all (\<lambda>u. \<not> started u) new
      \<and> list_all (\<lambda>e. phase e = 3) tr \<and> length tr = length new
      \<and> (if downgrade_refused k c tasks_data then r = Raised RuntimeError
          else r = Returned () \<and> length new = length tasks_data
             \<and> (\<forall>p<length tasks_data. unit_assigned k c tasks_data p (new ! p)))"
  using assms
proof (induction tasks_data tasks arbitrary: env c rule: list_all2_induct)
  case Nil
  then show ?case by (simp add: downgrade_refused_Nil)
next
  case (Cons d td task tasks)
  let ?c' = "if data_requests_gpu d then Suc c else c"
  from create_process_entry [OF Cons.hyps(1) Cons.prems, of td]
  obtain r1 env1 where cp: "create_process task env = (r1, env1)"
    and pr1: "procs env1 = procs env" and nb1: "nb_available_gpus env1 = int k"
    and ng1: "next_gpu env1 = int ?c' - 1"
    and res: "if data_requests_gpu d \<and> k \<le> c \<and> refuses_downgrade (fst d) then r1 = Raised RuntimeError
          else \<exists>u. r1 = Returned u \<and> \<not> started u \<and> unit_assigned k c (d # td) 0 u"
    by blast
  show ?case
  proof (cases "data_requests_gpu d \<and> k \<le> c \<and> refuses_downgrade (fst d)")
    case True
    with res cp pr1 show ?thesis
      by (simp add: downgrade_refused_Cons)
  next
    case False
    with res obtain u where r1: "r1 = Returned u" and nu: "\<not> started u"
      and ua: "unit_assigned k c (d # td) 0 u" by auto
    let ?env2 = "env1\<lparr>procs := procs env1 @ [u]\<rparr>"
    have "next_gpu ?env2 = int ?c' - 1" "nb_available_gpus ?env2 = int k"
      using ng1 nb1 by simp_all
    from Cons.IH [OF this]
    obtain r env' tr new where rec: "create_processes tasks ?env2 = (r, env', tr)"
      and pr: "procs env' = procs ?env2 @ new" and ns: "list_all (\<lambda>u. \<not> started u) new"
      and ph: "list_all (\<lambda>e. phase e = 3) tr" and len: "length tr = length new"
      and fin: "if downgrade_refused k ?c' td then r = Raised RuntimeError
          else r = Returned () \<and> length new = length td
             \<and> (\<forall>p<length td. unit_assigned k ?c' td p (new ! p))"
      by blast
    have eq: "create_processes (task # tasks) env = (r, env', ProcessCreated (length (procs env1)) # tr)"
      using cp r1 rec by simp
    have dr: "downgrade_refused k c (d # td) = downgrade_refused k ?c' td"
      using False by (auto simp: downgrade_refused_Cons)
    have "procs env' = procs env @ (u # new)" using pr pr1 by simp
    moreover have "list_all (\<lambda>u. \<not> started u) (u # new)" using nu ns by simp
    moreover have "list_all (\<lambda>e. phase e = 3) (ProcessCreated (length (procs env1)) # tr)"
      using ph by simp
    moreover have "length (ProcessCreated (length (procs env1)) # tr) = length (u # new)"
      using len by simp
    moreover have "if downgrade_refused k c (d # td) then r = Raised RuntimeError
          else r = Returned () \<and> length (u # new) = length (d # td)
             \<and> (\<forall>p<length (d # td). unit_assigned k c (d # td) p ((u # new) ! p))"
      using fin ua unfolding dr
      by (auto simp: All_less_Suc2 unit_assigned_Cons_Suc)
    ultimately show ?thesis using eq by blast
  qed
qed


lemma create_output_queues_trace:
  "\<exists>d' qs' tr. create_output_queues tasks_data d qs = (d', qs', tr)
      \<and> list_all (\<lambda>e. phase e = 0) tr \<and> length tr = length tasks_data"
proof (induction tasks_data arbitrary: d qs)
  case Nil
  then show ?case by simp
next
  case (Cons data rest)
  obtain node task_id parent_node_id has_children
    where data: "data = (node, task_id, parent_node_id, has_children)" by (cases data) auto
  from Cons [of "AList.update task_id (length qs) d" "qs @ [Queue 10]"] data
  show ?case by auto
qed

lemma unit_assigned_started:
  "unit_assigned k c tasks_data p (u\<lparr>started := b\<rparr>) = unit_assigned k c tasks_data p u"
  by (simp add: unit_assigned_def)

text \<open>
  C6. On a freshly constructed environment with \<open>k\<close> detected accelerators (and one of the
  two flow types), startup hands out the accelerators in topology order: the unit of the
  \<open>i\<close>-th accelerator-requesting transform entry gets accelerator \<open>i - 1\<close> when \<open>i \<le> k\<close>
  and is downgraded to CPU execution (no accelerator, its node's device type CPU) when
  \<open>i > k\<close>; every unit is then started. When some entry with \<open>i > k\<close> refuses the
  downgrade, startup raises \<^verbatim>\<open>RuntimeError\<close> and no unit has been started.
\<close>

theorem accelerator_assignment:
  assumes "ft \<noteq> OtherFlow"
  shows "case al_create_and_start_processes (QueueExecutionEnvironment_init ft (int k)) w tasks_data of
           (r, env', w', tr) \<Rightarrow>
             if downgrade_refused k 0 tasks_data
             then r = Raised RuntimeError \<and> list_all (\<lambda>e. phase e < 4) tr
                \<and> list_all (\<lambda>u. \<not> started u) (procs env')
             else r = Returned () \<and> length (procs env') = length tasks_data
                \<and> list_all started (procs env')
                \<and> (\<forall>p<length tasks_data. unit_assigned k 0 tasks_data p (procs env' ! p))"
proof -
  let ?env0 = "QueueExecutionEnvironment_init ft (int k) :: 'a environment"
  from create_output_queues_trace [of tasks_data "task_output_queues ?env0" "queues w"]
  obtain d qs tr0 where
    coq: "create_output_queues tasks_data (task_output_queues ?env0) (queues w) = (d, qs, tr0)"
    and ph0: "list_all (\<lambda>e. phase e = 0) tr0" by blast
  let ?ev = "length (events w)"
  let ?w1 = "w\<lparr>queues := qs, events := events w @ [False]\<rparr>"
  let ?env1 = "?env0\<lparr>task_output_queues := d, env_termination_event := Some ?ev\<rparr>"
  have "flow_type ?env1 \<noteq> OtherFlow"
    using assms by (simp add: QueueExecutionEnvironment_init_def)
  from initialize_tasks_bound [OF this, of ?ev tasks_data None "messengers ?w1"]
  obtain tasks ms tr1 where
    it: "initialize_tasks ?env1 ?ev tasks_data None (messengers ?w1) = (Returned tasks, ms, tr1)"
    and rel: "list_all2 entry_task tasks_data tasks" and ph1: "list_all (\<lambda>e. phase e = 2) tr1"
    by blast
  have "next_gpu ?env1 = int 0 - 1" "nb_available_gpus ?env1 = int k"
    by (simp_all add: QueueExecutionEnvironment_init_def)
  from create_processes_assign [OF rel this]
  obtain r2 env2 tr2 new where
    cp: "create_processes tasks ?env1 = (r2, env2, tr2)"
    and pr: "procs env2 = procs ?env1 @ new" and ns: "list_all (\<lambda>u. \<not> started u) new"
    and ph2: "list_all (\<lambda>e. phase e = 3) tr2"
    and fin: "if downgrade_refused k 0 tasks_data then r2 = Raised RuntimeError
          else r2 = Returned () \<and> length new = length tasks_data
             \<and> (\<forall>p<length tasks_data. unit_assigned k 0 tasks_data p (new ! p))"
    by blast
  have pr': "procs env2 = new"
    using pr by (simp add: QueueExecutionEnvironment_init_def)
  have lt: "list_all (\<lambda>e. phase e < 4) (tr0 @ [EventCreated] @ tr1 @ tr2)"
    using ph0 ph1 ph2 by (auto simp: list_all_iff)
  show ?thesis
  proof (cases "downgrade_refused k 0 tasks_data")
    case True
    with fin have "r2 = Raised RuntimeError" by simp
    with True coq it cp pr' ns lt show ?thesis
      by (simp add: al_create_and_start_processes_def Let_def)
  next
    case False
    with fin have r2: "r2 = Returned ()" and len: "length new = length tasks_data"
      and ua: "\<forall>p<length tasks_data. unit_assigned k 0 tasks_data p (new ! p)" by simp_all
    from start_processes_fresh [OF ns, of 0]
    obtain tr3 where
      sp: "start_processes new 0 = (Returned (), map (\<lambda>p. p\<lparr>started := True\<rparr>) new, tr3)"
      by blast
    have "al_create_and_start_processes ?env0 w tasks_data =
        (Returned (), env2\<lparr>procs := map (\<lambda>p. p\<lparr>started := True\<rparr>) new\<rparr>, ?w1\<lparr>messengers := ms\<rparr>,
         tr0 @ [EventCreated] @ tr1 @ tr2 @ tr3)"
      using coq it cp r2 pr' sp by (simp add: al_create_and_start_processes_def Let_def)
    moreover have "list_all started (map (\<lambda>p. p\<lparr>started := True\<rparr>) new)"
      by (simp add: list_all_iff)
    moreover have "\<forall>p<length tasks_data.
        unit_assigned k 0 tasks_data p (map (\<lambda>p. p\<lparr>started := True\<rparr>) new ! p)"
      using ua len by (simp add: unit_assigned_started)
    ultimately show ?thesis using False len by simp
  qed
qed






theorem accelerator_assignment_witness:
  "BATCH \<noteq> OtherFlow
   \<and> (case al_create_and_start_processes (QueueExecutionEnvironment_init BATCH 2) ex_world ex_topology of
        (r, env', w', tr) \<Rightarrow>
          r = Returned () \<and> gpu_id (procs env' ! 0) = None \<and> gpu_id (procs env' ! 1) = Some 0
          \<and> gpu_id (procs env' ! 2) = Some 1 \<and> gpu_id (procs env' ! 3) = None
          \<and> device_type (computation_node (the (target_task (procs env' ! 3)))) = CPU)
   \<and> (case al_create_and_start_processes (QueueExecutionEnvironment_init REALTIME 0) ex_world
             ex_refusing_topology of
        (r, env', w', tr) \<Rightarrow>
          r = Raised RuntimeError \<and> list_all (\<lambda>e. phase e < 4) tr
          \<and> list_all (\<lambda>u. \<not> started u) (procs env'))"
proof -
  have a: "\<not> downgrade_refused 2 0 ex_topology"
    by (simp add: downgrade_refused_iff ex_topology_def Ex_less_Suc2 ex_gpu_node_def
        data_requests_gpu_def ex_producer_node_def)
  have b: "downgrade_refused 0 0 ex_refusing_topology"
    by (simp add: downgrade_refused_iff ex_refusing_topology_def Ex_less_Suc2 ex_gpu_node_def
        data_requests_gpu_def gpu_rank_def)
  have c: "unit_assigned 2 0 ex_topology 0 u = (gpu_id u = None)"
    "unit_assigned 2 0 ex_topology (Suc 0) u =
       (gpu_id u = Some 0 \<and> computation_node (the (target_task u)) = ex_gpu_node 1 False)"
    "unit_assigned 2 0 ex_topology 2 u =
       (gpu_id u = Some 1 \<and> computation_node (the (target_task u)) = ex_gpu_node 2 False)"
    "unit_assigned 2 0 ex_topology 3 u =
       (gpu_id u = None \<and> computation_node (the (target_task u)) = (ex_gpu_node 3 False)\<lparr>device_type := CPU\<rparr>)"
    for u :: "nat process"
    by (simp_all add: unit_assigned_def ex_topology_def gpu_rank_def data_requests_gpu_def
        ex_gpu_node_def ex_producer_node_def eval_nat_numeral)
  have len: "length ex_topology = 4" by (simp add: ex_topology_def)
  obtain r env' w' tr where
    run1: "al_create_and_start_processes (QueueExecutionEnvironment_init BATCH 2) ex_world ex_topology =
      (r, env', w', tr)"
    using prod_cases4 by blast
  with a accelerator_assignment [where ft = BATCH and k = 2 and w = ex_world and tasks_data = ex_topology]
  have r: "r = Returned ()"
    and ua: "\<forall>p<length ex_topology. unit_assigned 2 0 ex_topology p (procs env' ! p)"
    by simp_all
  from ua len have "unit_assigned 2 0 ex_topology 0 (procs env' ! 0)"
    "unit_assigned 2 0 ex_topology 1 (procs env' ! 1)"
    "unit_assigned 2 0 ex_topology 2 (procs env' ! 2)"
    "unit_assigned 2 0 ex_topology 3 (procs env' ! 3)"
    by simp_all
  then have one: "gpu_id (procs env' ! 0) = None \<and> gpu_id (procs env' ! 1) = Some 0
      \<and> gpu_id (procs env' ! 2) = Some 1 \<and> gpu_id (procs env' ! 3) = None
      \<and> device_type (computation_node (the (target_task (procs env' ! 3)))) = CPU"
    by (simp add: c)
  have two: "case al_create_and_start_processes (QueueExecutionEnvironment_init REALTIME 0) ex_world
             ex_refusing_topology of
        (r, env', w', tr) \<Rightarrow>
          r = Raised RuntimeError \<and> list_all (\<lambda>e. phase e < 4) tr
          \<and> list_all (\<lambda>u. \<not> started u) (procs env')"
    using b accelerator_assignment
        [where ft = REALTIME and k = 0 and w = ex_world and tasks_data = ex_refusing_topology]
    by (simp split: prod.splits)
  from run1 r one two show ?thesis by simp
qed



lemma initialize_tasks_trace:
  "\<exists>r ms' tr. initialize_tasks env ev tasks_data mvar ms = (r, ms', tr)
      \<and> list_all (\<lambda>e. phase e = 2) tr
      \<and> (\<forall>tasks. r = Returned tasks \<longrightarrow> length tasks = length tasks_data)"
proof (induction tasks_data arbitrary: mvar ms)
  case Nil
  then show ?case by simp
next
  case (Cons data rest)
  obtain mvar' ms' tr1 where cm: "create_messenger env ev data mvar ms = (mvar', ms', tr1)"
    using prod_cases3 by blast
  then have ph1: "list_all (\<lambda>e. phase e = 2) tr1"
    by (auto simp: create_messenger_def Let_def split: prod.splits if_splits)
  from Cons [of mvar' ms']
  obtain r ms'' tr where it: "initialize_tasks env ev rest mvar' ms' = (r, ms'', tr)"
    and ph: "list_all (\<lambda>e. phase e = 2) tr"
    and len: "\<forall>tasks. r = Returned tasks \<longrightarrow> length tasks = length rest" by blast
  show ?case
  proof (cases "create_task data mvar'")
    case (Returned task)
    with cm it ph ph1 len show ?thesis
      by (cases r; cases task) simp_all
  next
    case (Raised e)
    with cm ph1 show ?thesis by simp
  next
    case Blocked
    with cm ph1 show ?thesis by simp
  qed
qed

lemma create_processes_trace:
  "\<exists>r env' tr. create_processes tasks env = (r, env', tr)
      \<and> list_all (\<lambda>e. phase e = 3) tr \<and> (r = Returned () \<longrightarrow> length tr = length tasks)"
proof (induction tasks arbitrary: env)
  case Nil
  then show ?case by simp
next
  case (Cons task tasks)
  obtain r1 env1 where cp: "create_process task env = (r1, env1)" by (cases "create_process task env")
  show ?case
  proof (cases r1)
    case (Returned proc)
    from Cons [of "env1\<lparr>procs := procs env1 @ [proc]\<rparr>"] cp Returned show ?thesis by auto
  next
    case (Raised e)
    with cp show ?thesis by simp
  next
    case Blocked
    with cp show ?thesis by simp
  qed
qed

lemma start_processes_trace:
  "\<exists>r ps' tr. start_processes ps i = (r, ps', tr) \<and> list_all (\<lambda>e. phase e = 4) tr"
proof (induction ps arbitrary: i)
  case Nil
  then show ?case by simp
next
  case (Cons p ps)
  from Cons [of "Suc i"] show ?case by auto
qed

lemma filter_phase:
  "list_all (\<lambda>e. phase e = a) tr \<Longrightarrow>
   filter (\<lambda>e. phase e = b) tr = (if a = b then tr else [])"
  by (induction tr) auto

lemma list_ex_phase:
  "list_all (\<lambda>e. phase e = a) tr \<Longrightarrow> a \<noteq> b \<Longrightarrow> \<not> list_ex (\<lambda>e. phase e = b) tr"
  by (induction tr) auto

lemma sorted_one_phase: "list_all (\<lambda>e. phase e = a) tr \<Longrightarrow> sorted (map phase tr)"
  by (induction tr) (auto simp: list_all_iff)

lemma sorted_phases:
  assumes "list_all (\<lambda>e. phase e = 0) tr0" and "list_all (\<lambda>e. phase e = 2) tr1"
    and "list_all (\<lambda>e. phase e = 3) tr2" and "list_all (\<lambda>e. phase e = 4) tr3"
  shows "sorted (map phase (tr0 @ [EventCreated] @ tr1 @ tr2 @ tr3))"
  using assms sorted_one_phase [OF assms(1)] sorted_one_phase [OF assms(2)]
    sorted_one_phase [OF assms(3)] sorted_one_phase [OF assms(4)]
  by (auto simp: sorted_append list_all_iff)

lemma startup_log_in_order:
  "case al_create_and_start_processes env w tasks_data of
     (r, env', w', tr) \<Rightarrow>
       sorted (map phase tr)
       \<and> length (filter (\<lambda>e. phase e = 0) tr) = length tasks_data
       \<and> (list_ex (\<lambda>e. phase e = 4) tr \<longrightarrow>
            length (filter (\<lambda>e. phase e = 3) tr) = length tasks_data)"
proof -
  from create_output_queues_trace [of tasks_data "task_output_queues env" "queues w"]
  obtain d qs tr0 where
    coq: "create_output_queues tasks_data (task_output_queues env) (queues w) = (d, qs, tr0)"
    and ph0: "list_all (\<lambda>e. phase e = 0) tr0" and len0: "length tr0 = length tasks_data" by blast
  let ?ev = "length (events w)"
  let ?w1 = "w\<lparr>queues := qs, events := events w @ [False]\<rparr>"
  let ?env1 = "env\<lparr>task_output_queues := d, env_termination_event := Some ?ev\<rparr>"
  from initialize_tasks_trace [of ?env1 ?ev tasks_data None "messengers ?w1"]
  obtain r1 ms tr1 where
    it: "initialize_tasks ?env1 ?ev tasks_data None (messengers ?w1) = (r1, ms, tr1)"
    and ph1: "list_all (\<lambda>e. phase e = 2) tr1"
    and len1: "\<forall>tasks. r1 = Returned tasks \<longrightarrow> length tasks = length tasks_data" by blast
  have f0: "filter (\<lambda>e. phase e = 0) (tr0 @ [EventCreated] @ tr1) = tr0"
    using ph0 ph1 by (simp add: filter_phase)
  have s01: "sorted (map phase (tr0 @ [EventCreated] @ tr1))"
    using sorted_phases [OF ph0 ph1, of "[]" "[]"] by simp
  have n4: "\<not> list_ex (\<lambda>e. phase e = 4) (tr0 @ [EventCreated] @ tr1)"
    using ph0 ph1 by (simp add: list_ex_phase)
  show ?thesis
  proof (cases r1)
    case (Raised e)
    with coq it f0 s01 n4 len0 show ?thesis
      by (simp add: al_create_and_start_processes_def Let_def)
  next
    case Blocked
    with coq it f0 s01 n4 len0 show ?thesis
      by (simp add: al_create_and_start_processes_def Let_def)
  next
    case (Returned tasks)
    with len1 have lent: "length tasks = length tasks_data" by simp
    from create_processes_trace [of tasks ?env1]
    obtain r2 env2 tr2 where cp: "create_processes tasks ?env1 = (r2, env2, tr2)"
      and ph2: "list_all (\<lambda>e. phase e = 3) tr2"
      and len2: "r2 = Returned () \<longrightarrow> length tr2 = length tasks" by blast
    have f0': "filter (\<lambda>e. phase e = 0) (tr0 @ [EventCreated] @ tr1 @ tr2) = tr0"
      using ph0 ph1 ph2 by (simp add: filter_phase)
    have s02: "sorted (map phase (tr0 @ [EventCreated] @ tr1 @ tr2))"
      using sorted_phases [OF ph0 ph1 ph2, of "[]"] by simp
    have n4': "\<not> list_ex (\<lambda>e. phase e = 4) (tr0 @ [EventCreated] @ tr1 @ tr2)"
      using ph0 ph1 ph2 by (simp add: list_ex_phase)
    show ?thesis
    proof (cases r2)
      case (Raised e)
      with Returned coq it cp f0' s02 n4' len0 show ?thesis
        by (simp add: al_create_and_start_processes_def Let_def)
    next
      case Blocked
      with Returned coq it cp f0' s02 n4' len0 show ?thesis
        by (simp add: al_create_and_start_processes_def Let_def)
    next
      case r2: (Returned u)
      from start_processes_trace [of "procs env2" 0]
      obtain r3 ps tr3 where sp: "start_processes (procs env2) 0 = (r3, ps, tr3)"
        and ph3: "list_all (\<lambda>e. phase e = 4) tr3" by blast
      have eq: "al_create_and_start_processes env w tasks_data =
          (r3, env2\<lparr>procs := ps\<rparr>, ?w1\<lparr>messengers := ms\<rparr>, tr0 @ [EventCreated] @ tr1 @ tr2 @ tr3)"
        using Returned r2 coq it cp sp by (simp add: al_create_and_start_processes_def Let_def)
      have "filter (\<lambda>e. phase e = 0) (tr0 @ [EventCreated] @ tr1 @ tr2 @ tr3) = tr0"
        using ph0 ph1 ph2 ph3 by (simp add: filter_phase)
      moreover have "filter (\<lambda>e. phase e = 3) (tr0 @ [EventCreated] @ tr1 @ tr2 @ tr3) = tr2"
        using ph0 ph1 ph2 ph3 by (simp add: filter_phase)
      moreover have "length tr2 = length tasks_data"
        using len2 r2 lent by simp
      ultimately show ?thesis
        using eq len0 sorted_phases [OF ph0 ph1 ph2 ph3] by simp
    qed
  qed
qed

lemma ex_topology_startup:
  "snd (snd (snd (al_create_and_start_processes (QueueExecutionEnvironment_init BATCH 2) ex_world
      ex_topology))) =
     [QueueCreated 0, QueueCreated 1, QueueCreated 2, QueueCreated 3,
      EventCreated, MessengerCreated 0, TaskCreated 0, MessengerCreated 1,
      TaskCreated 1, MessengerCreated 2, TaskCreated 2, MessengerCreated 3,
      TaskCreated 3, ProcessCreated 0, ProcessCreated 1, ProcessCreated 2,
      ProcessCreated 3, ProcessStarted 0, ProcessStarted 1, ProcessStarted 2,
      ProcessStarted 3]"
  by code_simp

lemma create_output_queues_state:
  "\<exists>d' tr. create_output_queues tasks_data d qs =
       (d', qs @ replicate (length tasks_data) (Queue 10), tr)
     \<and> (\<forall>k. if k \<in> (fst \<circ> snd) ` set tasks_data
              then \<exists>a. map_of d' k = Some a \<and> length qs \<le> a \<and> a < length qs + length tasks_data
              else map_of d' k = map_of d k)"
proof (induction tasks_data arbitrary: d qs)
  case Nil
  then show ?case by simp
next
  case (Cons data rest)
  obtain node task_id parent_node_id has_children
    where data: "data = (node, task_id, parent_node_id, has_children)" by (cases data) auto
  let ?d1 = "AList.update task_id (length qs) d"
  let ?qs1 = "qs @ [Queue 10]"
  from Cons [of ?d1 ?qs1]
  obtain d' tr where rec: "create_output_queues rest ?d1 ?qs1 =
       (d', ?qs1 @ replicate (length rest) (Queue 10), tr)"
    and reg: "\<forall>k. if k \<in> (fst \<circ> snd) ` set rest
              then \<exists>a. map_of d' k = Some a \<and> length ?qs1 \<le> a \<and> a < length ?qs1 + length rest
              else map_of d' k = map_of ?d1 k" by blast
  have eq: "create_output_queues (data # rest) d qs =
       (d', qs @ replicate (length (data # rest)) (Queue 10), QueueCreated task_id # tr)"
    using rec data by simp
  have "if k \<in> (fst \<circ> snd) ` set (data # rest)
        then \<exists>a. map_of d' k = Some a \<and> length qs \<le> a \<and> a < length qs + length (data # rest)
        else map_of d' k = map_of d k" for k
  proof (cases "k \<in> (fst \<circ> snd) ` set rest")
    case True
    with reg have "\<exists>a. map_of d' k = Some a \<and> length ?qs1 \<le> a \<and> a < length ?qs1 + length rest"
      by meson
    then show ?thesis using True by auto
  next
    case False
    with reg have "map_of d' k = map_of ?d1 k" by meson
    with False data show ?thesis by (auto simp: update_conv')
  qed
  with eq show ?case by blast
qed

lemma create_messenger_state:
  "create_messenger env ev data mvar ms =
     (if flow_type env = OtherFlow then (mvar, ms, [])
      else (Some (length ms),
            ms @ [(if flow_type env = BATCH then BatchprocessingQueueMessenger else RealtimeQueueMessenger)
                    (Messenger_init (fst data) (map_of (task_output_queues env) (fst (snd data)))
                       (case fst (snd (snd data)) of None \<Rightarrow> None
                        | Some p \<Rightarrow> map_of (task_output_queues env) p) ev)],
            [MessengerCreated (fst (snd data))]))"
  by (cases "flow_type env") (simp_all add: create_messenger_def Let_def split: prod.splits)

lemma messenger_of_entry_init:
  "messenger_of_entry env data
     ((if b then BatchprocessingQueueMessenger else RealtimeQueueMessenger)
        (Messenger_init (fst data) (map_of (task_output_queues env) (fst (snd data)))
           (case fst (snd (snd data)) of None \<Rightarrow> None
            | Some p \<Rightarrow> map_of (task_output_queues env) p) ev))"
  by (simp add: messenger_of_entry_def Messenger_init_def split: prod.splits)

lemma messenger_of_entry_cong:
  "task_output_queues a = task_output_queues b \<Longrightarrow> messenger_of_entry a = messenger_of_entry b"
  by (auto simp: messenger_of_entry_def fun_eq_iff split: option.splits)

lemma queue_created_for_frame:
  "queue_created_for (env\<lparr>procs := ps\<rparr>) w w' = queue_created_for env w w'"
  "queue_created_for env w (w'\<lparr>messengers := ms\<rparr>) = queue_created_for env w w'"
  by (simp_all add: queue_created_for_def fun_eq_iff split: option.splits)

lemma initialize_tasks_state:
  "\<exists>r new tr. initialize_tasks env ev tasks_data mvar ms = (r, ms @ new, tr)
      \<and> (if flow_type env = OtherFlow then new = []
          else list_all2 (messenger_of_entry env) tasks_data new)
      \<and> (\<forall>tasks. r = Returned tasks \<longrightarrow> length tasks = length tasks_data)"
proof (cases "flow_type env = OtherFlow")
  case True
  show ?thesis
  proof (induction tasks_data arbitrary: mvar)
    case Nil
    with True show ?case by simp
  next
    case (Cons data rest)
    from Cons [of mvar] obtain r tr where
      it: "initialize_tasks env ev rest mvar ms = (r, ms, tr)"
      and len: "\<forall>tasks. r = Returned tasks \<longrightarrow> length tasks = length rest"
      using True by auto
    show ?case
    proof (cases "create_task data mvar")
      case (Returned task)
      with True it len show ?thesis
        by (cases r) (simp_all add: create_messenger_state)
    next
      case (Raised e)
      with True show ?thesis by (simp add: create_messenger_state)
    next
      case Blocked
      with True show ?thesis by (simp add: create_messenger_state)
    qed
  qed
next
  case False
  show ?thesis
  proof (induction tasks_data arbitrary: mvar ms)
    case Nil
    with False show ?case by simp
  next
    case (Cons data rest)
    let ?obj = "(if flow_type env = BATCH then BatchprocessingQueueMessenger else RealtimeQueueMessenger)
                    (Messenger_init (fst data) (map_of (task_output_queues env) (fst (snd data)))
                       (case fst (snd (snd data)) of None \<Rightarrow> None
                        | Some p \<Rightarrow> map_of (task_output_queues env) p) ev)"
    have cm: "create_messenger env ev data mvar ms =
        (Some (length ms), ms @ [?obj], [MessengerCreated (fst (snd data))])"
      using False by (simp add: create_messenger_state)
    have me: "messenger_of_entry env data ?obj"
      by (rule messenger_of_entry_init)
    from Cons [of "Some (length ms)" "ms @ [?obj]"] False obtain r new tr where
      it: "initialize_tasks env ev rest (Some (length ms)) (ms @ [?obj]) = (r, (ms @ [?obj]) @ new, tr)"
      and rel: "list_all2 (messenger_of_entry env) rest new"
      and len: "\<forall>tasks. r = Returned tasks \<longrightarrow> length tasks = length rest"
      by auto
    have app: "(ms @ [?obj]) @ new = ms @ (?obj # new)" by simp
    have rel': "list_all2 (messenger_of_entry env) (data # rest) (?obj # new)"
      using me rel by simp
    show ?case
    proof (cases "create_task data (Some (length ms))")
      case (Returned task)
      have "\<exists>r' tr'. initialize_tasks env ev (data # rest) mvar ms = (r', ms @ (?obj # new), tr')
          \<and> (\<forall>tasks. r' = Returned tasks \<longrightarrow> length tasks = length (data # rest))"
        using cm Returned it len unfolding app by (cases r) simp_all
      then obtain r' tr' where
        "initialize_tasks env ev (data # rest) mvar ms = (r', ms @ (?obj # new), tr')"
        "\<forall>tasks. r' = Returned tasks \<longrightarrow> length tasks = length (data # rest)" by blast
      with rel' False show ?thesis
        by (intro exI [of _ r'] exI [of _ "?obj # new"] exI [of _ tr']) simp
    next
      case (Raised e)
      have "False"
        using Raised by (cases "kind (fst data)") (auto simp: create_task_def split: prod.splits)
      then show ?thesis ..
    next
      case Blocked
      have "False"
        using Blocked by (cases "kind (fst data)") (auto simp: create_task_def split: prod.splits)
      then show ?thesis ..
    qed
  qed
qed


lemma create_process_state:
  "create_process task env = (r1, env1) \<Longrightarrow>
   procs env1 = procs env \<and> task_output_queues env1 = task_output_queues env
   \<and> (\<forall>proc. r1 = Returned proc \<longrightarrow> \<not> started proc)"
  by (auto simp: create_process_def Let_def create_process_task_def create_process_task_gpu_def
      split: if_splits outcome.splits)

lemma create_processes_state:
  "\<exists>r env' tr new. create_processes tasks env = (r, env', tr)
      \<and> procs env' = procs env @ new \<and> list_all (\<lambda>u. \<not> started u) new
      \<and> length new \<le> length tasks \<and> (r = Returned () \<longrightarrow> length new = length tasks)
      \<and> task_output_queues env' = task_output_queues env"
proof (induction tasks arbitrary: env)
  case Nil
  then show ?case by simp
next
  case (Cons task tasks)
  obtain r1 env1 where cp: "create_process task env = (r1, env1)" by (cases "create_process task env")
  from create_process_state [OF cp]
  have pr1: "procs env1 = procs env" and tq1: "task_output_queues env1 = task_output_queues env"
    and ns: "\<forall>proc. r1 = Returned proc \<longrightarrow> \<not> started proc" by simp_all
  show ?case
  proof (cases r1)
    case (Returned proc)
    let ?env2 = "env1\<lparr>procs := procs env1 @ [proc]\<rparr>"
    from Cons [of ?env2] obtain r env' tr new where
      rec: "create_processes tasks ?env2 = (r, env', tr)"
      and pr: "procs env' = procs ?env2 @ new" and un: "list_all (\<lambda>u. \<not> started u) new"
      and le: "length new \<le> length tasks" and eq: "r = Returned () \<longrightarrow> length new = length tasks"
      and tq: "task_output_queues env' = task_output_queues ?env2" by blast
    have "create_processes (task # tasks) env =
        (r, env', ProcessCreated (length (procs env1)) # tr)"
      using cp Returned rec by simp
    moreover have "procs env' = procs env @ (proc # new)" using pr pr1 by simp
    moreover have "list_all (\<lambda>u. \<not> started u) (proc # new)" using un ns Returned by simp
    moreover have "length (proc # new) \<le> length (task # tasks)" using le by simp
    moreover have "r = Returned () \<longrightarrow> length (proc # new) = length (task # tasks)"
      using eq by simp
    moreover have "task_output_queues env' = task_output_queues env" using tq tq1 by simp
    ultimately show ?thesis by blast
  next
    case (Raised e)
    with cp pr1 tq1 show ?thesis by simp
  next
    case Blocked
    with cp pr1 tq1 show ?thesis by simp
  qed
qed

lemma start_processes_state:
  "\<exists>r ps' tr. start_processes ps i = (r, ps', tr) \<and> length ps' = length ps
      \<and> (r = Returned () \<longrightarrow> list_all started ps')"
proof (induction ps arbitrary: i)
  case Nil
  then show ?case by simp
next
  case (Cons p ps)
  from Cons [of "Suc i"] show ?case by auto
qed

lemma startup_state:
  "case al_create_and_start_processes env w tasks_data of
     (r, env', w', tr) \<Rightarrow>
       queues w' = queues w @ replicate (length tasks_data) (Queue 10)
       \<and> list_all (\<lambda>data. queue_created_for env' w w' (fst (snd data))) tasks_data
       \<and> take (length (messengers w)) (messengers w') = messengers w
       \<and> (if flow_type env = OtherFlow then messengers w' = messengers w
          else list_all2 (messenger_of_entry env') tasks_data
                 (drop (length (messengers w)) (messengers w')))
       \<and> length (procs env') \<le> length (procs env) + length tasks_data
       \<and> (r = Returned () \<longrightarrow>
            list_all started (procs env')
            \<and> length (procs env') = length (procs env) + length tasks_data)
       \<and> (\<forall>i<length (procs env'). started (procs env' ! i) \<longrightarrow>
            i < length (procs env) \<and> started (procs env ! i)
            \<or> length (procs env') = length (procs env) + length tasks_data)"
proof -
  from create_output_queues_state [of tasks_data "task_output_queues env" "queues w"]
  obtain d tr0 where
    coq: "create_output_queues tasks_data (task_output_queues env) (queues w) =
      (d, queues w @ replicate (length tasks_data) (Queue 10), tr0)"
    and reg: "\<forall>k. if k \<in> (fst \<circ> snd) ` set tasks_data
              then \<exists>a. map_of d k = Some a \<and> length (queues w) \<le> a
                     \<and> a < length (queues w) + length tasks_data
              else map_of d k = map_of (task_output_queues env) k" by blast
  let ?qs = "queues w @ replicate (length tasks_data) (Queue 10)"
  let ?ev = "length (events w)"
  let ?w1 = "w\<lparr>queues := ?qs, events := events w @ [False]\<rparr>"
  let ?env1 = "env\<lparr>task_output_queues := d, env_termination_event := Some ?ev\<rparr>"
  from initialize_tasks_state [of ?env1 ?ev tasks_data None "messengers ?w1"]
  obtain r1 new tr1 where
    it: "initialize_tasks ?env1 ?ev tasks_data None (messengers ?w1) = (r1, messengers ?w1 @ new, tr1)"
    and ms: "if flow_type ?env1 = OtherFlow then new = []
          else list_all2 (messenger_of_entry ?env1) tasks_data new"
    and len1: "\<forall>tasks. r1 = Returned tasks \<longrightarrow> length tasks = length tasks_data" by blast
  have created: "list_all (\<lambda>data. queue_created_for env' w w' (fst (snd data))) tasks_data"
    if "task_output_queues env' = d" and "queues w' = ?qs" for env' :: "'a environment"
      and w' :: "('a, 'b) world"
  proof -
    have "queue_created_for env' w w' (fst (snd data))" if "data \<in> set tasks_data" for data
    proof -
      from that have "fst (snd data) \<in> (fst \<circ> snd) ` set tasks_data" by force
      with reg obtain a where "map_of d (fst (snd data)) = Some a" "length (queues w) \<le> a"
        "a < length (queues w) + length tasks_data" by meson
      with \<open>task_output_queues env' = d\<close> \<open>queues w' = ?qs\<close> show ?thesis
        by (simp add: queue_created_for_def)
    qed
    then show ?thesis by (simp add: list_all_iff)
  qed
  have held: "if flow_type env = OtherFlow then messengers w' = messengers w
          else list_all2 (messenger_of_entry env') tasks_data
                 (drop (length (messengers w)) (messengers w'))"
    if "task_output_queues env' = d" and "messengers w' = messengers w @ new"
    for env' :: "'a environment" and w' :: "('a, 'b) world"
  proof -
    have e: "messenger_of_entry ?env1 = messenger_of_entry env'"
      using that(1) by (intro messenger_of_entry_cong) simp
    have f: "flow_type ?env1 = flow_type env" by simp
    from ms [unfolded e f] that(2) show ?thesis by simp
  qed
  have chan: "queues w' = queues w @ replicate (length tasks_data) (Queue 10)
       \<and> list_all (\<lambda>data. queue_created_for env' w w' (fst (snd data))) tasks_data
       \<and> take (length (messengers w)) (messengers w') = messengers w
       \<and> (if flow_type env = OtherFlow then messengers w' = messengers w
          else list_all2 (messenger_of_entry env') tasks_data
                 (drop (length (messengers w)) (messengers w')))"
    if "task_output_queues env' = d" and "queues w' = ?qs"
      and "messengers w' = messengers w @ new"
    for env' :: "'a environment" and w' :: "('a, 'b) world"
    using created [OF that(1,2)] held [OF that(1,3)] that(2,3) by simp
  have units: "length (procs env @ extra) \<le> length (procs env) + length tasks_data
       \<and> (\<forall>i<length (procs env @ extra). started ((procs env @ extra) ! i) \<longrightarrow>
            i < length (procs env) \<and> started (procs env ! i)
            \<or> length (procs env @ extra) = length (procs env) + length tasks_data)"
    if "list_all (\<lambda>u. \<not> started u) extra" and "length extra \<le> length tasks_data" for extra
    using that by (auto simp: nth_append list_all_length)
  let ?w2 = "?w1\<lparr>messengers := messengers ?w1 @ new\<rparr>"
  have ch1: "queues ?w2 = queues w @ replicate (length tasks_data) (Queue 10)
       \<and> list_all (\<lambda>data. queue_created_for ?env1 w ?w2 (fst (snd data))) tasks_data
       \<and> take (length (messengers w)) (messengers ?w2) = messengers w
       \<and> (if flow_type env = OtherFlow then messengers ?w2 = messengers w
          else list_all2 (messenger_of_entry ?env1) tasks_data
                 (drop (length (messengers w)) (messengers ?w2)))"
    by (rule chan) simp_all
  have un1: "length (procs ?env1) \<le> length (procs env) + length tasks_data
       \<and> (\<forall>i<length (procs ?env1). started (procs ?env1 ! i) \<longrightarrow>
            i < length (procs env) \<and> started (procs env ! i)
            \<or> length (procs ?env1) = length (procs env) + length tasks_data)"
    by simp
  show ?thesis
  proof (cases r1)
    case (Raised e)
    have res: "al_create_and_start_processes env w tasks_data =
        (Raised e, ?env1, ?w2, tr0 @ [EventCreated] @ tr1)"
      using Raised coq it by (simp add: al_create_and_start_processes_def Let_def)
    from ch1 un1 ms show ?thesis
      unfolding res by simp
  next
    case Blocked
    have res: "al_create_and_start_processes env w tasks_data =
        (Blocked, ?env1, ?w2, tr0 @ [EventCreated] @ tr1)"
      using Blocked coq it by (simp add: al_create_and_start_processes_def Let_def)
    from ch1 un1 ms show ?thesis
      unfolding res by simp
  next
    case (Returned tasks)
    with len1 have lent: "length tasks = length tasks_data" by simp
    from create_processes_state [of tasks ?env1]
    obtain r2 env2 tr2 extra where cp: "create_processes tasks ?env1 = (r2, env2, tr2)"
      and pr: "procs env2 = procs ?env1 @ extra" and un: "list_all (\<lambda>u. \<not> started u) extra"
      and le: "length extra \<le> length tasks" and eq: "r2 = Returned () \<longrightarrow> length extra = length tasks"
      and tq: "task_output_queues env2 = task_output_queues ?env1" by blast
    have pr': "procs env2 = procs env @ extra" using pr by simp
    have tq': "task_output_queues env2 = d" using tq by simp
    have le': "length extra \<le> length tasks_data" using le lent by simp
    have ch2: "queues ?w2 = queues w @ replicate (length tasks_data) (Queue 10)
       \<and> list_all (\<lambda>data. queue_created_for env2 w ?w2 (fst (snd data))) tasks_data
       \<and> take (length (messengers w)) (messengers ?w2) = messengers w
       \<and> (if flow_type env = OtherFlow then messengers ?w2 = messengers w
          else list_all2 (messenger_of_entry env2) tasks_data
                 (drop (length (messengers w)) (messengers ?w2)))"
      by (rule chan) (simp_all add: tq')
    show ?thesis
    proof (cases r2)
      case (Raised e)
      have res: "al_create_and_start_processes env w tasks_data =
          (Raised e, env2, ?w2, tr0 @ [EventCreated] @ tr1 @ tr2)"
        using Returned Raised coq it cp by (simp add: al_create_and_start_processes_def Let_def)
      from ch2 units [OF un le'] show ?thesis
        unfolding res by (simp add: pr' split: if_splits)
    next
      case Blocked
      have res: "al_create_and_start_processes env w tasks_data =
          (Blocked, env2, ?w2, tr0 @ [EventCreated] @ tr1 @ tr2)"
        using Returned Blocked coq it cp by (simp add: al_create_and_start_processes_def Let_def)
      from ch2 units [OF un le'] show ?thesis
        unfolding res by (simp add: pr' split: if_splits)
    next
      case r2: (Returned u)
      with eq lent have full: "length (procs env2) = length (procs env) + length tasks_data"
        using pr' by simp
      from start_processes_state [of "procs env2" 0]
      obtain r3 ps tr3 where sp: "start_processes (procs env2) 0 = (r3, ps, tr3)"
        and lps: "length ps = length (procs env2)"
        and st: "r3 = Returned () \<longrightarrow> list_all started ps" by blast
      let ?env3 = "env2\<lparr>procs := ps\<rparr>"
      have res: "al_create_and_start_processes env w tasks_data =
          (r3, ?env3, ?w2, tr0 @ [EventCreated] @ tr1 @ tr2 @ tr3)"
        using Returned r2 coq it cp sp by (simp add: al_create_and_start_processes_def Let_def)
      have me: "messenger_of_entry ?env3 = messenger_of_entry env2"
        by (intro messenger_of_entry_cong) simp
      from ch2 full lps st show ?thesis
        unfolding res by (simp add: queue_created_for_frame me split: if_splits)
    qed
  qed
qed

text \<open>
  C8. In every run of \<^verbatim>\<open>_al_create_and_start_processes\<close>, whatever its outcome:
  its effects happen phase by phase (queue creations, the event, messenger and task
  constructions, process creations, process starts), none of a later phase before one of
  an earlier; the store has gained one queue of capacity 10 per entry, and the registry
  refers to such a new queue under every entry's identity; every messenger that was
  built holds the queues registered for its entry and its entry's parent in that final
  registry, wherever in the topology the parent stands, so every queue was created before
  the first messenger was built; and if any unit was started by the run, then the units
  of all entries had been created: the process list has its full length, and a run that
  returns has started every unit of it.
\<close>

theorem startup_effects_in_order:
  "case al_create_and_start_processes env w tasks_data of
     (r, env', w', tr) \<Rightarrow>
       sorted (map phase tr)
       \<and> length (filter (\<lambda>e. phase e = 0) tr) = length tasks_data
       \<and> (list_ex (\<lambda>e. phase e = 4) tr \<longrightarrow>
            length (filter (\<lambda>e. phase e = 3) tr) = length tasks_data)
       \<and> queues w' = queues w @ replicate (length tasks_data) (Queue 10)
       \<and> list_all (\<lambda>data. queue_created_for env' w w' (fst (snd data))) tasks_data
       \<and> take (length (messengers w)) (messengers w') = messengers w
       \<and> (if flow_type env = OtherFlow then messengers w' = messengers w
          else list_all2 (messenger_of_entry env') tasks_data
                 (drop (length (messengers w)) (messengers w')))
       \<and> length (procs env') \<le> length (procs env) + length tasks_data
       \<and> (r = Returned () \<longrightarrow>
            list_all started (procs env')
            \<and> length (procs env') = length (procs env) + length tasks_data)
       \<and> (\<forall>i<length (procs env'). started (procs env' ! i) \<longrightarrow>
            i < length (procs env) \<and> started (procs env ! i)
            \<or> length (procs env') = length (procs env) + length tasks_data)"
proof -
  obtain r env' w' tr where
    res: "al_create_and_start_processes env w tasks_data = (r, env', w', tr)"
    using prod_cases4 by blast
  from startup_log_in_order [where env = env and w = w and tasks_data = tasks_data]
    startup_state [where env = env and w = w and tasks_data = tasks_data]
  show ?thesis unfolding res by simp
qed

lemma ex_topology_startup_outcome:
  "fst (al_create_and_start_processes (QueueExecutionEnvironment_init BATCH 2) ex_world
      ex_topology) = Returned ()"
  by code_simp

theorem startup_effects_in_order_witness:
  "case al_create_and_start_processes (QueueExecutionEnvironment_init BATCH 2) ex_world ex_topology of
     (r, env', w', tr) \<Rightarrow>
       r = Returned () \<and> list_ex (\<lambda>e. phase e = 4) tr
       \<and> sorted (map phase tr) \<and> length (filter (\<lambda>e. phase e = 0) tr) = 4
       \<and> length (filter (\<lambda>e. phase e = 3) tr) = 4
       \<and> queues w' = replicate 4 (Queue 10)
       \<and> list_all started (procs env') \<and> length (procs env') = 4"
proof -
  have len: "length ex_topology = 4" by (simp add: ex_topology_def)
  have none: "queues ex_world = []"
    "procs (QueueExecutionEnvironment_init BATCH 2 :: nat environment) = []"
    by (simp_all add: ex_world_def QueueExecutionEnvironment_init_def)
  show ?thesis
    using startup_effects_in_order
        [where env = "QueueExecutionEnvironment_init BATCH 2" and w = ex_world
          and tasks_data = ex_topology]
      ex_topology_startup ex_topology_startup_outcome len none
    by (auto split: prod.splits)
qed

lemma try_except_pass_messenger: "fst (snd (try_except_pass r)) = fst (snd r)"
  by (cases r rule: try_except_pass.cases) simp_all

lemma task_queue_put_messenger: "fst (snd (task_queue_put self q msg block ticks)) = self"
  by (simp add: task_queue_put_def split: prod.splits)

lemma call_send_event:
  "termination_event (fst (snd (call_send obj c q ticks))) =
     termination_event (messenger_fields obj)"
  by (cases obj; cases c)
    (simp_all add: batch_publish_message_def batch_publish_termination_message_def
      batch_passthrough_message_def batch_passthrough_termination_message_def
      realtime_publish_message_def realtime_publish_termination_message_def
      realtime_passthrough_message_def realtime_passthrough_termination_message_def
      try_except_pass_messenger task_queue_put_messenger Let_def split: option.splits)

lemma call_receive_event:
  "termination_event (fst (snd (call_receive obj pq ticks))) =
     termination_event (messenger_fields obj)"
  by (cases obj)
    (auto simp: batch_receive_message_def realtime_receive_message_def Let_def
      split: option.splits prod.splits outcome.splits)

lemma messenger_fields_with_fields: "messenger_fields (with_fields obj self) = self"
  by (cases obj) simp_all

lemma world_send_frame:
  "events (world_send w i c ticks) = events w
   \<and> length (messengers (world_send w i c ticks)) = length (messengers w)
   \<and> (j < length (messengers w) \<longrightarrow>
        termination_event (messenger_fields (messengers (world_send w i c ticks) ! j)) =
          termination_event (messenger_fields (messengers w ! j)))"
proof (cases "length (messengers w) \<le> i")
  case True
  then show ?thesis by (simp add: world_send_def)
next
  case False
  let ?obj = "messengers w ! i"
  show ?thesis
  proof (cases "task_queue (messenger_fields ?obj)")
    case None
    obtain r self' q' where cs: "call_send ?obj c (Queue 0) ticks = (r, self', q')"
      using prod_cases3 by blast
    with call_send_event [of ?obj c "Queue 0" ticks]
    have "termination_event self' = termination_event (messenger_fields ?obj)" by simp
    with False None cs show ?thesis
      by (simp add: world_send_def Let_def nth_list_update messenger_fields_with_fields)
  next
    case (Some a)
    obtain r self' q' where cs: "call_send ?obj c (queues w ! a) ticks = (r, self', q')"
      using prod_cases3 by blast
    with call_send_event [of ?obj c "queues w ! a" ticks]
    have "termination_event self' = termination_event (messenger_fields ?obj)" by simp
    with False Some cs show ?thesis
      by (simp add: world_send_def Let_def nth_list_update messenger_fields_with_fields)
  qed
qed

lemma world_receive_frame:
  "events (world_receive w i ticks) = events w
   \<and> length (messengers (world_receive w i ticks)) = length (messengers w)
   \<and> (j < length (messengers w) \<longrightarrow>
        termination_event (messenger_fields (messengers (world_receive w i ticks) ! j)) =
          termination_event (messenger_fields (messengers w ! j)))"
proof (cases "length (messengers w) \<le> i")
  case True
  then show ?thesis by (simp add: world_receive_def)
next
  case False
  let ?obj = "messengers w ! i"
  show ?thesis
  proof (cases "parent_task_queue (messenger_fields ?obj)")
    case None
    obtain r self' q' where cs: "call_receive ?obj None ticks = (r, self', q')"
      using prod_cases3 by blast
    with call_receive_event [of ?obj None ticks]
    have "termination_event self' = termination_event (messenger_fields ?obj)" by simp
    with False None cs show ?thesis
      by (simp add: world_receive_def Let_def nth_list_update messenger_fields_with_fields)
  next
    case (Some a)
    obtain r self' q' where cs: "call_receive ?obj (Some (queues w ! a)) ticks = (r, self', q')"
      using prod_cases3 by blast
    with call_receive_event [of ?obj "Some (queues w ! a)" ticks]
    have "termination_event self' = termination_event (messenger_fields ?obj)" by simp
    with False Some cs show ?thesis
      by (simp add: world_receive_def Let_def nth_list_update messenger_fields_with_fields)
  qed
qed

lemma create_messenger_appends:
  "\<exists>mvar' new tr. create_messenger env ev data mvar ms = (mvar', ms @ new, tr)
      \<and> list_all (\<lambda>obj. termination_event (messenger_fields obj) = ev) new"
  by (cases "flow_type env")
    (auto simp: create_messenger_def Messenger_init_def Let_def split: prod.splits)

lemma initialize_tasks_appends:
  "\<exists>r new tr. initialize_tasks env ev tasks_data mvar ms = (r, ms @ new, tr)
      \<and> list_all (\<lambda>obj. termination_event (messenger_fields obj) = ev) new"
proof (induction tasks_data arbitrary: mvar ms)
  case Nil
  then show ?case by simp
next
  case (Cons data rest)
  from create_messenger_appends [of env ev data mvar ms]
  obtain mvar' new1 tr1 where cm: "create_messenger env ev data mvar ms = (mvar', ms @ new1, tr1)"
    and ev1: "list_all (\<lambda>obj. termination_event (messenger_fields obj) = ev) new1" by blast
  from Cons [of mvar' "ms @ new1"]
  obtain r new tr where it: "initialize_tasks env ev rest mvar' (ms @ new1) = (r, (ms @ new1) @ new, tr)"
    and ev2: "list_all (\<lambda>obj. termination_event (messenger_fields obj) = ev) new" by blast
  show ?case
  proof (cases "create_task data mvar'")
    case (Returned task)
    with cm it ev1 ev2 show ?thesis
      by (cases r) auto
  next
    case (Raised e)
    with cm ev1 show ?thesis by auto
  next
    case Blocked
    with cm ev1 show ?thesis by auto
  qed
qed

lemma create_process_event:
  "env_termination_event (snd (create_process task env)) = env_termination_event env"
  by (simp add: create_process_def Let_def split: outcome.splits)

lemma create_processes_event:
  "env_termination_event (fst (snd (create_processes tasks env))) = env_termination_event env"
proof (induction tasks arbitrary: env)
  case Nil
  then show ?case by simp
next
  case (Cons task tasks)
  obtain r1 env1 where cp: "create_process task env = (r1, env1)" by (cases "create_process task env")
  with create_process_event [of task env]
  have e1: "env_termination_event env1 = env_termination_event env" by simp
  show ?case
  proof (cases r1)
    case (Returned proc)
    with Cons [of "env1\<lparr>procs := procs env1 @ [proc]\<rparr>"] cp e1 show ?thesis
      by (auto split: prod.splits)
  next
    case (Raised e)
    with cp e1 show ?thesis by simp
  next
    case Blocked
    with cp e1 show ?thesis by simp
  qed
qed

lemma al_create_and_start_processes_event:
  "case al_create_and_start_processes env w tasks_data of
     (r, env', w', tr) \<Rightarrow>
       env_termination_event env' = Some (length (events w))
       \<and> events w' = events w @ [False]
       \<and> (\<exists>new. messengers w' = messengers w @ new
            \<and> list_all (\<lambda>obj. termination_event (messenger_fields obj) = length (events w)) new)"
proof -
  obtain d qs tr0 where
    coq: "create_output_queues tasks_data (task_output_queues env) (queues w) = (d, qs, tr0)"
    using prod_cases3 by blast
  let ?ev = "length (events w)"
  let ?w1 = "w\<lparr>queues := qs, events := events w @ [False]\<rparr>"
  let ?env1 = "env\<lparr>task_output_queues := d, env_termination_event := Some ?ev\<rparr>"
  from initialize_tasks_appends [of ?env1 ?ev tasks_data None "messengers ?w1"]
  obtain r1 new tr1 where
    it: "initialize_tasks ?env1 ?ev tasks_data None (messengers ?w1) = (r1, messengers ?w1 @ new, tr1)"
    and evs: "list_all (\<lambda>obj. termination_event (messenger_fields obj) = ?ev) new" by blast
  show ?thesis
  proof (cases r1)
    case (Raised e)
    with coq it evs show ?thesis
      by (simp add: al_create_and_start_processes_def Let_def)
  next
    case Blocked
    with coq it evs show ?thesis
      by (simp add: al_create_and_start_processes_def Let_def)
  next
    case (Returned tasks)
    obtain r2 env2 tr2 where cp: "create_processes tasks ?env1 = (r2, env2, tr2)"
      using prod_cases3 by blast
    with create_processes_event [of tasks ?env1]
    have e2: "env_termination_event env2 = Some ?ev" by simp
    obtain r3 ps tr3 where sp: "start_processes (procs env2) 0 = (r3, ps, tr3)"
      using prod_cases3 by blast
    from Returned coq it cp sp e2 evs show ?thesis
      by (cases r2) (simp_all add: al_create_and_start_processes_def Let_def)
  qed
qed


lemma signal_flow_termination_events:
  "snd (signal_flow_termination env evs) =
     (case env_termination_event env of None \<Rightarrow> evs | Some e \<Rightarrow> evs[e := True])"
  by (simp add: signal_flow_termination_def split: option.splits)

lemma step_frame:
  "length (events (sys_world s)) \<le> length (events (sys_world (step s a)))
   \<and> (e < length (events (sys_world s)) \<and> events (sys_world s) ! e \<longrightarrow>
        events (sys_world (step s a)) ! e)
   \<and> length (messengers (sys_world s)) \<le> length (messengers (sys_world (step s a)))
   \<and> (j < length (messengers (sys_world s)) \<longrightarrow>
        termination_event (messenger_fields (messengers (sys_world (step s a)) ! j)) =
          termination_event (messenger_fields (messengers (sys_world s) ! j)))"
proof (cases a)
  case (Send i c t)
  with world_send_frame [of "sys_world s" i c t j] show ?thesis by simp
next
  case (Receive i t)
  with world_receive_frame [of "sys_world s" i t j] show ?thesis by simp
next
  case (CheckForTermination i)
  then show ?thesis by simp
next
  case (AlCreateAndStartProcesses tasks_data)
  with al_create_and_start_processes_event
      [where env = "sys_env s" and w = "sys_world s" and tasks_data = tasks_data]
  show ?thesis by (auto simp: nth_append split: prod.splits)
next
  case SignalFlowTermination
  have "xs[i := True] ! e" if "e < length xs" and "xs ! e" for xs i
    using that by (cases "i = e") simp_all
  with SignalFlowTermination signal_flow_termination_events [of "sys_env s" "events (sys_world s)"]
  show ?thesis by (auto split: prod.splits option.splits)
next
  case (JoinTaskProcesses js)
  then show ?thesis by simp
qed

lemma step_event_valid:
  assumes "\<forall>e. env_termination_event (sys_env s) = Some e \<longrightarrow> e < length (events (sys_world s))"
  shows "\<forall>e. env_termination_event (sys_env (step s a)) = Some e \<longrightarrow>
           e < length (events (sys_world (step s a)))"
proof (cases a)
  case (AlCreateAndStartProcesses tasks_data)
  with al_create_and_start_processes_event
      [where env = "sys_env s" and w = "sys_world s" and tasks_data = tasks_data]
  show ?thesis by (auto split: prod.splits)
next
  case SignalFlowTermination
  with assms signal_flow_termination_events [of "sys_env s" "events (sys_world s)"]
  show ?thesis by (auto split: prod.splits option.splits)
next
  case (Send i c t)
  with assms world_send_frame [of "sys_world s" i c t 0] show ?thesis by simp
next
  case (Receive i t)
  with assms world_receive_frame [of "sys_world s" i t 0] show ?thesis by simp
qed (use assms in simp_all)

lemma run_event_valid:
  "\<forall>e. env_termination_event (sys_env s) = Some e \<longrightarrow> e < length (events (sys_world s)) \<Longrightarrow>
   \<forall>e. env_termination_event (sys_env (run s acts)) = Some e \<longrightarrow>
         e < length (events (sys_world (run s acts)))"
proof (induction acts arbitrary: s)
  case Nil
  then show ?case by (simp add: run_def)
next
  case (Cons a acts)
  from Cons.IH [OF step_event_valid [OF Cons.prems, of a]] show ?case by (simp add: run_def)
qed

lemma run_events:
  "e < length (events (sys_world s)) \<Longrightarrow> events (sys_world s) ! e \<Longrightarrow>
   e < length (events (sys_world (run s acts))) \<and> events (sys_world (run s acts)) ! e"
proof (induction acts arbitrary: s)
  case Nil
  then show ?case by (simp add: run_def)
next
  case (Cons a acts)
  from step_frame [where s = s and a = a and e = e and j = 0] Cons.prems
  have "e < length (events (sys_world (step s a)))" "events (sys_world (step s a)) ! e"
    by auto
  from Cons.IH [OF this] show ?case by (simp add: run_def)
qed

lemma run_messenger_event:
  "j < length (messengers (sys_world s)) \<Longrightarrow>
   j < length (messengers (sys_world (run s acts)))
   \<and> termination_event (messenger_fields (messengers (sys_world (run s acts)) ! j)) =
       termination_event (messenger_fields (messengers (sys_world s) ! j))"
proof (induction acts arbitrary: s)
  case Nil
  then show ?case by (simp add: run_def)
next
  case (Cons a acts)
  from step_frame [where s = s and a = a and e = 0 and j = j] Cons.prems
  have 1: "j < length (messengers (sys_world (step s a)))"
    and 2: "termination_event (messenger_fields (messengers (sys_world (step s a)) ! j)) =
          termination_event (messenger_fields (messengers (sys_world s) ! j))"
    by auto
  from Cons.IH [OF 1] 2 show ?case by (simp add: run_def)
qed

lemma call_check_for_termination_fields:
  "call_check_for_termination obj evs = evs ! termination_event (messenger_fields obj)"
  by (cases obj) (simp_all add: check_for_termination_def)

text \<open>
  C7. In every state \<open>s\<close> a run can reach from the freshly constructed environment:
  startup binds the environment and every messenger it builds to a new event that is not
  set; no call of a messenger or of the environment clears an event that is set; and if
  \<^verbatim>\<open>signal_flow_termination()\<close> is called when the environment has its event, then after
  any further calls whatsoever \<^verbatim>\<open>check_for_termination()\<close> returns true on every messenger
  bound to that event.
\<close>

theorem termination_is_monotonic:
  "let s = run (initial_system ft gpus) pre in
     (case al_create_and_start_processes (sys_env s) (sys_world s) tasks_data of
        (r, env', w', tr) \<Rightarrow>
          env_termination_event env' = Some (length (events (sys_world s)))
          \<and> \<not> events w' ! length (events (sys_world s))
          \<and> (\<forall>j. length (messengers (sys_world s)) \<le> j \<and> j < length (messengers w') \<longrightarrow>
                termination_event (messenger_fields (messengers w' ! j)) =
                  length (events (sys_world s))))
     \<and> (e < length (events (sys_world s)) \<and> events (sys_world s) ! e \<longrightarrow>
          e < length (events (sys_world (step s a))) \<and> events (sys_world (step s a)) ! e)
     \<and> (env_termination_event (sys_env s) = Some e \<longrightarrow>
          (let s' = run (step s SignalFlowTermination) acts in
             (\<forall>m. termination_event m = e \<longrightarrow> check_for_termination m (events (sys_world s')))
             \<and> (\<forall>j<length (messengers (sys_world s)).
                  termination_event (messenger_fields (messengers (sys_world s) ! j)) = e \<longrightarrow>
                  call_check_for_termination (messengers (sys_world s') ! j) (events (sys_world s')))))"
proof -
  define s where "s = run (initial_system ft gpus) pre"
  have init: "\<forall>e. env_termination_event (sys_env (initial_system ft gpus)) = Some e \<longrightarrow>
      e < length (events (sys_world (initial_system ft gpus)))"
    by (simp add: initial_system_def QueueExecutionEnvironment_init_def)
  have valid: "\<forall>e. env_termination_event (sys_env s) = Some e \<longrightarrow> e < length (events (sys_world s))"
    unfolding s_def by (rule run_event_valid [OF init])
  have fresh: "case al_create_and_start_processes (sys_env s) (sys_world s) tasks_data of
        (r, env', w', tr) \<Rightarrow>
          env_termination_event env' = Some (length (events (sys_world s)))
          \<and> \<not> events w' ! length (events (sys_world s))
          \<and> (\<forall>j. length (messengers (sys_world s)) \<le> j \<and> j < length (messengers w') \<longrightarrow>
                termination_event (messenger_fields (messengers w' ! j)) =
                  length (events (sys_world s)))"
    using al_create_and_start_processes_event
      [where env = "sys_env s" and w = "sys_world s" and tasks_data = tasks_data]
    by (auto simp: nth_append list_all_length split: prod.splits)
  have mono: "e < length (events (sys_world s)) \<and> events (sys_world s) ! e \<longrightarrow>
          e < length (events (sys_world (step s a))) \<and> events (sys_world (step s a)) ! e"
    using step_frame [where s = s and a = a and e = e and j = 0] by auto
  have stays: "(\<forall>m. termination_event m = e \<longrightarrow>
        check_for_termination m (events (sys_world (run (step s SignalFlowTermination) acts))))
      \<and> (\<forall>j<length (messengers (sys_world s)).
            termination_event (messenger_fields (messengers (sys_world s) ! j)) = e \<longrightarrow>
            call_check_for_termination (messengers (sys_world (run (step s SignalFlowTermination) acts)) ! j)
              (events (sys_world (run (step s SignalFlowTermination) acts))))"
    if ev: "env_termination_event (sys_env s) = Some e"
  proof -
    let ?s1 = "step s SignalFlowTermination"
    from ev valid have lt: "e < length (events (sys_world s))" by simp
    with ev have set1: "e < length (events (sys_world ?s1))" "events (sys_world ?s1) ! e"
      by (simp_all add: signal_flow_termination_def)
    have ms1: "messengers (sys_world ?s1) = messengers (sys_world s)"
      by (simp split: prod.splits)
    have a: "check_for_termination m (events (sys_world (run ?s1 acts)))"
      if "termination_event m = e" for m
      using run_events [OF set1, of acts] that by (simp add: check_for_termination_def)
    have b: "call_check_for_termination (messengers (sys_world (run ?s1 acts)) ! j)
              (events (sys_world (run ?s1 acts)))"
      if "j < length (messengers (sys_world s))"
        and "termination_event (messenger_fields (messengers (sys_world s) ! j)) = e" for j
      using run_events [OF set1, of acts] run_messenger_event [of j ?s1 acts] that ms1
      by (simp add: call_check_for_termination_fields)
    from a b show ?thesis by blast
  qed
  from fresh mono stays show ?thesis
    unfolding s_def [symmetric] Let_def by blast
qed


lemma ex_started_system_facts:
  "env_termination_event (sys_env ex_started_system) = Some 0"
  "\<not> events (sys_world ex_started_system) ! 0"
  "length (messengers (sys_world ex_started_system)) = 4"
  "termination_event (messenger_fields (messengers (sys_world ex_started_system) ! 1)) = 0"
  by code_simp+

theorem termination_is_monotonic_witness:
  "env_termination_event (sys_env ex_started_system) = Some 0
   \<and> \<not> events (sys_world ex_started_system) ! 0
   \<and> call_check_for_termination
       (messengers (sys_world (run (step ex_started_system SignalFlowTermination) ex_actions)) ! 1)
       (events (sys_world (run (step ex_started_system SignalFlowTermination) ex_actions)))"
proof -
  have lt: "1 < length (messengers (sys_world ex_started_system))"
    by (simp add: ex_started_system_facts)
  note inst = termination_is_monotonic
      [where ft = BATCH and gpus = 2 and pre = "[AlCreateAndStartProcesses ex_topology]"
        and e = 0 and acts = ex_actions, folded ex_started_system_def, unfolded Let_def]
  from inst ex_started_system_facts(1) ex_started_system_facts(4) lt
  have "call_check_for_termination
       (messengers (sys_world (run (step ex_started_system SignalFlowTermination) ex_actions)) ! 1)
       (events (sys_world (run (step ex_started_system SignalFlowTermination) ex_actions)))"
    by blast
  with ex_started_system_facts(1,2) show ?thesis by blast
qed

end
